theory Spec2Isabelle
  imports Main
begin

section \<open>Python string operations used by the translator\<close>

text \<open>
  Strings are \<^typ>\<open>string\<close>; a \<^typ>\<open>char\<close> stands for a code point below 256.
  \<open>isspace\<close> is Python's \<^verbatim>\<open>str.isspace\<close> on those code points: TAB, LF, VT, FF, CR,
  FS, GS, RS, US, SPACE, NEL (0x85) and NBSP (0xA0).
\<close>

definition isspace :: "char \<Rightarrow> bool" where
  "isspace c = (of_char c \<in> {9::nat, 10, 11, 12, 13, 28, 29, 30, 31, 32, 133, 160})"

text \<open>\<^verbatim>\<open>s.strip()\<close>: drop leading and trailing whitespace.\<close>

definition strip :: "string \<Rightarrow> string" where
  "strip s = rev (dropWhile isspace (rev (dropWhile isspace s)))"

text \<open>\<^verbatim>\<open>sub in s\<close> on strings: \<open>sub\<close> occurs in \<open>s\<close> as a contiguous substring.\<close>

fun startswith :: "string \<Rightarrow> string \<Rightarrow> bool" where
  "startswith s [] = True"
| "startswith [] (p # ps) = False"
| "startswith (c # cs) (p # ps) = (c = p \<and> startswith cs ps)"

fun str_in :: "string \<Rightarrow> string \<Rightarrow> bool" where
  "str_in sub [] = (sub = [])"
| "str_in sub (c # cs) = (startswith (c # cs) sub \<or> str_in sub cs)"

text \<open>\<^verbatim>\<open>s.split('\n')\<close>: one more piece than there are newlines; \<^verbatim>\<open>''.split('\n') == ['']\<close>.\<close>

fun split_nl :: "string \<Rightarrow> string list" where
  "split_nl [] = [[]]"
| "split_nl (c # cs) =
     (if c = CHR 0x0A then [] # split_nl cs
      else (case split_nl cs of [] \<Rightarrow> [[c]] | l # ls \<Rightarrow> (c # l) # ls))"

text \<open>\<^verbatim>\<open>"\n".join(text)\<close>.\<close>

fun join_nl :: "string list \<Rightarrow> string" where
  "join_nl [] = []"
| "join_nl [x] = x"
| "join_nl (x # y # ys) = x @ [CHR 0x0A] @ join_nl (y # ys)"

section \<open>main.py: translate\<close>

text \<open>The argument \<open>text\<close> is a str or a list of str; so is the returned value.\<close>

datatype text_arg = TStr string | TList "string list"

datatype trans_result = RStr string | RList "string list"

text \<open>\<^verbatim>\<open>code_map.get(lang, 'unknown')\<close>.\<close>

definition code_map :: "string \<rightharpoonup> string" where
  "code_map = map_of
     [(''English'', ''en''),
      (''Traditional Chinese'', ''zh-Hant''),
      (''Simplified Chinese'', ''zh-Hans''),
      (''Japanese'', ''ja''),
      (''Korean'', ''ko''),
      (''French'', ''fr''),
      (''German'', ''de''),
      (''Spanish'', ''es'')]"

definition code_map_get :: "string \<Rightarrow> string" where
  "code_map_get lang = (case code_map lang of None \<Rightarrow> ''unknown'' | Some c \<Rightarrow> c)"

text \<open>\<^verbatim>\<open>if not source_code: source_code = code_map.get(source_lang, 'unknown')\<close>:
  \<open>None\<close> and the empty string are both falsy.\<close>

definition lang_code :: "string option \<Rightarrow> string \<Rightarrow> string" where
  "lang_code code lang =
     (case code of None \<Rightarrow> code_map_get lang
      | Some c \<Rightarrow> if c = [] then code_map_get lang else c)"

definition batch_instruction_text :: string where
  "batch_instruction_text =
     ''The following input contains multiple lines of text. Please translate each line efficiently and maintain the original line breaks in your output. Do not merge lines.''"

definition content_to_translate :: "text_arg \<Rightarrow> string" where
  "content_to_translate t = (case t of TStr s \<Rightarrow> s | TList l \<Rightarrow> join_nl l)"

definition batch_instruction :: "text_arg \<Rightarrow> string" where
  "batch_instruction t = (case t of TStr _ \<Rightarrow> [] | TList _ \<Rightarrow> batch_instruction_text)"

definition base_persona :: "string \<Rightarrow> string \<Rightarrow> string \<Rightarrow> string \<Rightarrow> string option \<Rightarrow> string" where
  "base_persona source_lang source_code target_lang target_code instruction =
     ''You are a professional '' @ source_lang @ '' ('' @ source_code @ '') to '' @
     target_lang @ '' ('' @ target_code @ '') translator.'' @
     (case instruction of None \<Rightarrow> []
      | Some ins \<Rightarrow> if ins = [] then [] else '' '' @ ins)"

definition system_prompt ::
  "text_arg \<Rightarrow> string \<Rightarrow> string \<Rightarrow> string option \<Rightarrow> string option \<Rightarrow> string option \<Rightarrow> string" where
  "system_prompt text source_lang target_lang source_code target_code instruction =
     base_persona source_lang (lang_code source_code source_lang)
       target_lang (lang_code target_code target_lang) instruction @
     '' Your goal is to accurately convey the meaning and nuances of the original '' @
     source_lang @ '' text while adhering to '' @ target_lang @
     '' grammar, vocabulary, and cultural sensitivities. '' @ batch_instruction text @
     '' Produce only the '' @ target_lang @
     '' translation, without any additional explanations or commentary. Please translate the following '' @
     source_lang @ '' text into '' @ target_lang @ '':'' @ [CHR 0x0A, CHR 0x0A] @
     content_to_translate text"

text \<open>
  The two libraries the function calls are parameters of the model.
  \<^item> \<open>chat model prompt\<close> is \<^verbatim>\<open>ollama.chat(...)['message']['content']\<close>: \<open>Inl msg\<close> when
    the call (or reading the reply) raises an exception \<open>e\<close> that \<^verbatim>\<open>except Exception\<close>
    catches, with \<^verbatim>\<open>str(e) = msg\<close>, and \<open>Inr c\<close> when it delivers the reply text \<open>c\<close>.
  \<^item> \<open>convert\<close> is \<^verbatim>\<open>opencc.OpenCC('s2twp').convert\<close>, taken to be a total function on
    strings.
\<close>

definition translate ::
  "(string \<Rightarrow> string \<Rightarrow> string + string) \<Rightarrow> (string \<Rightarrow> string) \<Rightarrow>
   text_arg \<Rightarrow> string \<Rightarrow> string \<Rightarrow> string option \<Rightarrow> string option \<Rightarrow> string \<Rightarrow> string option \<Rightarrow>
   trans_result" where
  "translate chat convert text source_lang target_lang source_code target_code model instruction =
     (case chat model (system_prompt text source_lang target_lang source_code target_code instruction) of
        Inl e \<Rightarrow> RStr (''Error during translation: '' @ e)
      | Inr reply \<Rightarrow>
          (let result = strip reply in
           case text of
             TList req \<Rightarrow>
               (let translated_lines = split_nl result;
                    translated_lines =
                      (if length translated_lines \<noteq> length req
                       then filter (\<lambda>line. strip line \<noteq> []) translated_lines
                       else translated_lines);
                    translated_lines =
                      (if str_in ''Traditional Chinese'' target_lang
                       then map convert translated_lines
                       else translated_lines)
                in RList translated_lines)
           | TStr _ \<Rightarrow>
               RStr (if str_in ''Traditional Chinese'' target_lang then convert result else result)))"

section \<open>translate\_srt.py: the batch translation engine\<close>

text \<open>
  A subtitle as the \<^verbatim>\<open>srt\<close> library hands it over: index, start and end time (in
  microseconds), content and the proprietary tail of the timing line. The field
  \<^verbatim>\<open>end\<close> is called \<open>end_time\<close> here.
\<close>

record subtitle =
  index :: "int option"
  start :: int
  end_time :: int
  content :: string
  proprietary :: string

text \<open>
  What a run does to the outside world is kept in the state: the arguments of every
  \<^verbatim>\<open>progress_callback\<close> call, every message passed to \<^verbatim>\<open>log\<close> inside the loop, and
  the list of texts of every call of \<^verbatim>\<open>translate\<close>, each in the order it happened.
\<close>

record trace =
  current_progress :: nat
  progress_calls :: "(nat \<times> nat) list"
  log_lines :: "string list"
  requests :: "string list list"

record srt_state = trace +
  new_subs :: "subtitle list"

record txt_state = trace +
  translated_lines_map :: "nat \<rightharpoonup> string"

datatype error = ValueError

text \<open>
  The engine calls \<^verbatim>\<open>translate(texts, source_lang, target_lang, model=..., instruction=...)\<close>.
  In the engine's model this call is \<open>tr n texts\<close>, where \<open>n\<close> is the number of calls made
  before this one, so that \<open>tr\<close> ranges over every behaviour of the translator.
\<close>

type_synonym translate_fn = "nat \<Rightarrow> string list \<Rightarrow> trans_result"

text \<open>
  \<^verbatim>\<open>if isinstance(r, str): if "Error" in r: log(...); r = texts  else: r = [r]\<close>.
  Returns the list to use and the messages logged.
\<close>

definition handle_result :: "trans_result \<Rightarrow> string list \<Rightarrow> string list \<times> string list" where
  "handle_result r texts =
     (case r of
        RStr s \<Rightarrow> if str_in ''Error'' s then (texts, [''Batch error: '' @ s]) else ([s], [])
      | RList l \<Rightarrow> (l, []))"

text \<open>\<^verbatim>\<open>while len(translated_texts) < len(batch): translated_texts.append("")\<close>.\<close>

function safety_fill :: "nat \<Rightarrow> string list \<Rightarrow> string list" where
  "safety_fill n translated =
     (if length translated < n then safety_fill n (translated @ [[]]) else translated)"
  by pat_completeness auto
termination
  by (relation "measure (\<lambda>(n, translated). n - length translated)") auto

declare safety_fill.simps [simp del]

text \<open>
  \<^verbatim>\<open>for idx, sub in enumerate(batch): if idx < len(translated_texts): sub.content = translated_texts[idx]; new_subs.append(sub)\<close>.
  The result is the list of subtitles appended to \<^verbatim>\<open>new_subs\<close>.
\<close>

fun write_back :: "string list \<Rightarrow> nat \<Rightarrow> subtitle list \<Rightarrow> subtitle list" where
  "write_back translated idx [] = []"
| "write_back translated idx (sub # rest) =
     (if idx < length translated then sub\<lparr>content := translated ! idx\<rparr> else sub)
       # write_back translated (Suc idx) rest"

text \<open>\<^verbatim>\<open>any(texts)\<close> on a list of strings: some string is not empty.\<close>

definition py_any :: "string list \<Rightarrow> bool" where
  "py_any texts = list_ex (\<lambda>t. t \<noteq> []) texts"

text \<open>\<^verbatim>\<open>if progress_callback: progress_callback(current_progress, total)\<close>.\<close>

definition report :: "bool \<Rightarrow> nat \<Rightarrow> nat \<Rightarrow> (nat \<times> nat) list \<Rightarrow> (nat \<times> nat) list" where
  "report progress_callback cur tot calls =
     (if progress_callback then calls @ [(cur, tot)] else calls)"

text \<open>The body of the loop of \<^verbatim>\<open>translate_srt\<close> for one \<open>batch\<close>; \<open>total_subs\<close> is \<^verbatim>\<open>len(subs)\<close>.\<close>

definition srt_batch ::
  "translate_fn \<Rightarrow> bool \<Rightarrow> nat \<Rightarrow> subtitle list \<Rightarrow> srt_state \<Rightarrow> srt_state" where
  "srt_batch tr progress_callback total_subs batch st =
     (let texts_to_translate = map (\<lambda>sub. strip (content sub)) batch;
          cur = current_progress st + length batch
      in if \<not> py_any texts_to_translate
         then st\<lparr>new_subs := new_subs st @ batch,
                 current_progress := cur,
                 progress_calls := report progress_callback cur total_subs (progress_calls st)\<rparr>
         else
           (let r = tr (length (requests st)) texts_to_translate;
                (translated, msgs) = handle_result r texts_to_translate;
                translated_texts = safety_fill (length batch) translated
            in st\<lparr>requests := requests st @ [texts_to_translate],
                   log_lines := log_lines st @ msgs,
                   new_subs := new_subs st @ write_back translated_texts 0 batch,
                   current_progress := cur,
                   progress_calls := report progress_callback cur total_subs (progress_calls st)\<rparr>))"

text \<open>
  \<^verbatim>\<open>for i in range(0, len(subs), BATCH_SIZE): batch = subs[i : i + BATCH_SIZE]; ...\<close>
  for a positive step \<open>k\<close>; with \<open>k = 0\<close> the function returns the state as it is (the
  caller below gives the step 0 and the negative steps their Python meaning). The
  subtitles of a batch are rewritten only after the batch has been sliced, and later
  slices lie behind it, so every slice reads subtitles as parsed.
\<close>

function srt_loop ::
  "translate_fn \<Rightarrow> bool \<Rightarrow> nat \<Rightarrow> nat \<Rightarrow> subtitle list \<Rightarrow> srt_state \<Rightarrow> srt_state" where
  "srt_loop tr progress_callback k i subs st =
     (if 0 < k \<and> i < length subs
      then srt_loop tr progress_callback k (i + k) subs
             (srt_batch tr progress_callback (length subs) (take k (drop i subs)) st)
      else st)"
  by pat_completeness auto
termination
  by (relation "measure (\<lambda>(tr, cb, k, i, subs, st). length subs - i)") auto

declare srt_loop.simps [simp del]

definition srt_init :: srt_state where
  "srt_init = \<lparr>current_progress = 0, progress_calls = [], log_lines = [], requests = [],
               new_subs = []\<rparr>"

text \<open>
  The loop of \<^verbatim>\<open>translate_srt\<close> from the parsed subtitles \<open>subs\<close> to the list handed to
  \<^verbatim>\<open>srt.compose\<close>. \<^verbatim>\<open>range\<close> raises ValueError for the step 0 and is empty for a
  negative step.
\<close>

definition translate_srt_engine ::
  "translate_fn \<Rightarrow> bool \<Rightarrow> int \<Rightarrow> subtitle list \<Rightarrow> error + srt_state" where
  "translate_srt_engine tr progress_callback batch_size subs =
     (if batch_size = 0 then Inl ValueError
      else if batch_size < 0 then Inr srt_init
      else Inr (srt_loop tr progress_callback (nat batch_size) 0 subs srt_init))"

definition srt_default_instruction :: string where
  "srt_default_instruction =
     ''You are a professional erotica novel translator. Translate with the appropriate tone and nuance, ensuring the context of the scene is conveyed accurately.''"

text \<open>\<^verbatim>\<open>if not INSTRUCTION: INSTRUCTION = default\<close>.\<close>

definition instruction_or :: "string \<Rightarrow> string option \<Rightarrow> string" where
  "instruction_or dflt instruction =
     (case instruction of None \<Rightarrow> dflt | Some ins \<Rightarrow> if ins = [] then dflt else ins)"

text \<open>
  The call \<^verbatim>\<open>translate(texts, source_lang, target_lang, model=model, instruction=INSTRUCTION)\<close>
  as both functions of translate\_srt.py make it: the codes are left to their default
  \<^verbatim>\<open>None\<close>, and \<open>chat n\<close> is the behaviour of \<^verbatim>\<open>ollama.chat\<close> at the call number \<open>n\<close>.
\<close>

definition client ::
  "(nat \<Rightarrow> string \<Rightarrow> string \<Rightarrow> string + string) \<Rightarrow> (string \<Rightarrow> string) \<Rightarrow>
   string \<Rightarrow> string \<Rightarrow> string \<Rightarrow> string \<Rightarrow> translate_fn" where
  "client chat convert source_lang target_lang model instruction n texts =
     translate (chat n) convert (TList texts) source_lang target_lang None None model
       (Some instruction)"

text \<open>\<^verbatim>\<open>translate_srt\<close> with \<^verbatim>\<open>translate\<close> of main.py in place.\<close>

definition translate_srt ::
  "(nat \<Rightarrow> string \<Rightarrow> string \<Rightarrow> string + string) \<Rightarrow> (string \<Rightarrow> string) \<Rightarrow>
   string \<Rightarrow> string \<Rightarrow> string \<Rightarrow> bool \<Rightarrow> int \<Rightarrow> string option \<Rightarrow> subtitle list \<Rightarrow> error + srt_state" where
  "translate_srt chat convert source_lang target_lang model progress_callback batch_size instruction subs =
     translate_srt_engine
       (client chat convert source_lang target_lang model
          (instruction_or srt_default_instruction instruction))
       progress_callback batch_size subs"

subsection \<open>translate\_plain\_text\<close>

text \<open>
  \<^verbatim>\<open>for idx, line in enumerate(lines): if line.strip(): lines_to_process.append((idx, line.strip()))\<close>.
\<close>

fun lines_to_process :: "nat \<Rightarrow> string list \<Rightarrow> (nat \<times> string) list" where
  "lines_to_process idx [] = []"
| "lines_to_process idx (line # rest) =
     (if strip line \<noteq> [] then (idx, strip line) # lines_to_process (Suc idx) rest
      else lines_to_process (Suc idx) rest)"

text \<open>
  \<^verbatim>\<open>for idx_in_batch, trans_text in enumerate(translated_results): if idx_in_batch < len(batch_indices): translated_lines_map[batch_indices[idx_in_batch]] = trans_text\<close>.
\<close>

fun map_back :: "nat list \<Rightarrow> nat \<Rightarrow> string list \<Rightarrow> (nat \<rightharpoonup> string) \<Rightarrow> (nat \<rightharpoonup> string)" where
  "map_back batch_indices idx_in_batch [] m = m"
| "map_back batch_indices idx_in_batch (trans_text # rest) m =
     map_back batch_indices (Suc idx_in_batch) rest
       (if idx_in_batch < length batch_indices
        then m(batch_indices ! idx_in_batch \<mapsto> trans_text) else m)"

definition txt_batch ::
  "translate_fn \<Rightarrow> bool \<Rightarrow> nat \<Rightarrow> (nat \<times> string) list \<Rightarrow> txt_state \<Rightarrow> txt_state" where
  "txt_batch tr progress_callback total_items batch_tuples st =
     (let batch_indices = map fst batch_tuples;
          batch_texts = map snd batch_tuples;
          r = tr (length (requests st)) batch_texts;
          (translated, msgs) = handle_result r batch_texts;
          translated_results = safety_fill (length batch_texts) translated;
          cur = current_progress st + length batch_tuples
      in st\<lparr>requests := requests st @ [batch_texts],
             log_lines := log_lines st @ msgs,
             translated_lines_map := map_back batch_indices 0 translated_results (translated_lines_map st),
             current_progress := cur,
             progress_calls := report progress_callback cur total_items (progress_calls st)\<rparr>)"

function txt_loop ::
  "translate_fn \<Rightarrow> bool \<Rightarrow> nat \<Rightarrow> nat \<Rightarrow> (nat \<times> string) list \<Rightarrow> txt_state \<Rightarrow> txt_state" where
  "txt_loop tr progress_callback k i ltp st =
     (if 0 < k \<and> i < length ltp
      then txt_loop tr progress_callback k (i + k) ltp
             (txt_batch tr progress_callback (length ltp) (take k (drop i ltp)) st)
      else st)"
  by pat_completeness auto
termination
  by (relation "measure (\<lambda>(tr, cb, k, i, ltp, st). length ltp - i)") auto

declare txt_loop.simps [simp del]

definition txt_init :: txt_state where
  "txt_init = \<lparr>current_progress = 0, progress_calls = [], log_lines = [], requests = [],
               translated_lines_map = Map.empty\<rparr>"

text \<open>
  \<^verbatim>\<open>for idx, line in enumerate(lines): if idx in translated_lines_map: output_lines.append(translated_lines_map[idx] + "\n") else: output_lines.append(line)\<close>.
\<close>

fun reconstruct :: "(nat \<rightharpoonup> string) \<Rightarrow> nat \<Rightarrow> string list \<Rightarrow> string list" where
  "reconstruct m idx [] = []"
| "reconstruct m idx (line # rest) =
     (case m idx of Some t \<Rightarrow> t @ [CHR 0x0A] | None \<Rightarrow> line) # reconstruct m (Suc idx) rest"

text \<open>
  \<^verbatim>\<open>translate_plain_text\<close> from the lines read (\<^verbatim>\<open>f.readlines()\<close>) to the final state of
  the loop and the lines written (\<^verbatim>\<open>f.writelines(output_lines)\<close>).
\<close>

definition translate_plain_text_engine ::
  "translate_fn \<Rightarrow> bool \<Rightarrow> int \<Rightarrow> string list \<Rightarrow> error + (txt_state \<times> string list)" where
  "translate_plain_text_engine tr progress_callback batch_size lines =
     (if batch_size = 0 then Inl ValueError
      else
        (let st = (if batch_size < 0 then txt_init
                   else txt_loop tr progress_callback (nat batch_size) 0
                          (lines_to_process 0 lines) txt_init)
         in Inr (st, reconstruct (translated_lines_map st) 0 lines)))"

definition txt_default_instruction :: string where
  "txt_default_instruction = ''You are a professional translator.''"

definition translate_plain_text ::
  "(nat \<Rightarrow> string \<Rightarrow> string \<Rightarrow> string + string) \<Rightarrow> (string \<Rightarrow> string) \<Rightarrow>
   string \<Rightarrow> string \<Rightarrow> string \<Rightarrow> bool \<Rightarrow> int \<Rightarrow> string option \<Rightarrow> string list \<Rightarrow>
   error + (txt_state \<times> string list)" where
  "translate_plain_text chat convert source_lang target_lang model progress_callback batch_size instruction lines =
     translate_plain_text_engine
       (client chat convert source_lang target_lang model
          (instruction_or txt_default_instruction instruction))
       progress_callback batch_size lines"

section \<open>Serialisation and the batch layout of the specification\<close>

text \<open>
  Modelled from the spec: \<^verbatim>\<open>srt.compose\<close> belongs to the \<^verbatim>\<open>srt\<close> library, which is not
  among the sources. The specification says of it: ``for SRT, regenerates index numbers
  sequentially regardless of input index (matches standard SRT composition rules) while
  preserving timing exactly''. \<open>compose_blocks\<close> gives the blocks that are written, in
  order, numbered from 1.
\<close>

fun reindex :: "int \<Rightarrow> subtitle list \<Rightarrow> subtitle list" where
  "reindex n [] = []"
| "reindex n (sub # rest) = sub\<lparr>index := Some n\<rparr> # reindex (n + 1) rest"

definition compose_blocks :: "subtitle list \<Rightarrow> subtitle list" where
  "compose_blocks subs = reindex 1 subs"

text \<open>
  The batch layout in the specification's words: with batch size \<open>k\<close> and \<open>n\<close> units there
  are \<open>ceil(n/k)\<close> batches, and batch \<open>i\<close> holds the units at the positions
  \<open>[i*k, min((i+1)*k, n))\<close>.
\<close>

definition ceil_div :: "nat \<Rightarrow> nat \<Rightarrow> nat" where
  "ceil_div n k = (n + k - 1) div k"

definition batches :: "nat \<Rightarrow> 'a list \<Rightarrow> 'a list list" where
  "batches k xs =
     map (\<lambda>i. map (\<lambda>j. xs ! j) [i * k ..< min ((i + 1) * k) (length xs)])
       [0 ..< ceil_div (length xs) k]"

text \<open>The slices \<^verbatim>\<open>xs[i : i + k]\<close> for \<open>i = 0, k, 2k, ...\<close> below \<open>len(xs)\<close>, as a recursion.\<close>

function chunks :: "nat \<Rightarrow> 'a list \<Rightarrow> 'a list list" where
  "chunks k xs = (if k = 0 \<or> xs = [] then [] else take k xs # chunks k (drop k xs))"
  by pat_completeness auto
termination
  by (relation "measure (\<lambda>(k, xs). length xs)") auto

declare chunks.simps [simp del]

text \<open>A subtitle with its content blanked: what is left is everything the engine must keep.\<close>

definition frame :: "subtitle \<Rightarrow> subtitle" where
  "frame sub = sub\<lparr>content := []\<rparr>"

text \<open>Sample data for the closed instances further down.\<close>

definition mk_sub :: "int \<Rightarrow> int \<Rightarrow> string \<Rightarrow> subtitle" where
  "mk_sub n t c = \<lparr>index = Some n, start = t, end_time = t + 1500000, content = c, proprietary = []\<rparr>"

text \<open>Sample translators and backends for the closed instances.\<close>

definition returns_lines :: "string list \<Rightarrow> translate_fn" where
  "returns_lines res n texts = RList res"

definition backend_says :: "string \<Rightarrow> nat \<Rightarrow> string \<Rightarrow> string \<Rightarrow> string + string" where
  "backend_says reply n model prompt = Inr reply"

definition backend_down :: "nat \<Rightarrow> string \<Rightarrow> string \<Rightarrow> string + string" where
  "backend_down n model prompt = Inl ''connection refused''"

definition backend_fails_first :: "nat \<Rightarrow> string \<Rightarrow> string \<Rightarrow> string + string" where
  "backend_fails_first n model prompt = (if n = 0 then Inl ''timeout'' else Inr ''Deux'')"

text \<open>
  The specification's ``ordered sub-sequence of non-empty units'': the units whose text is
  not empty after trimming.
\<close>

definition non_empty_units :: "subtitle list \<Rightarrow> subtitle list" where
  "non_empty_units subs = filter (\<lambda>sub. strip (content sub) \<noteq> []) subs"

definition non_empty_lines :: "string list \<Rightarrow> string list" where
  "non_empty_lines lines = filter (\<lambda>line. strip line \<noteq> []) lines"

text \<open>The texts of a list that are not empty.\<close>

definition non_empty :: "string list \<Rightarrow> string list" where
  "non_empty texts = filter (\<lambda>t. t \<noteq> []) texts"

section \<open>Lemmas on the string operations\<close>

lemma strip_Nil [simp]: "strip [] = []"
  by (simp add: strip_def)

lemma dropWhile_id: "xs \<noteq> [] \<Longrightarrow> \<not> P (hd xs) \<Longrightarrow> dropWhile P xs = xs"
  by (cases xs) auto

lemma all_dropWhile_iff: "(\<forall>x \<in> set (dropWhile P s). P x) \<longleftrightarrow> (\<forall>x \<in> set s. P x)"
proof
  assume a: "\<forall>x \<in> set (dropWhile P s). P x"
  have "dropWhile P s = []"
  proof (rule ccontr)
    assume "dropWhile P s \<noteq> []"
    then have "\<not> P (hd (dropWhile P s))" "hd (dropWhile P s) \<in> set (dropWhile P s)"
      by (simp_all add: hd_dropWhile)
    with a show False by blast
  qed
  then show "\<forall>x \<in> set s. P x" by (simp add: dropWhile_eq_Nil_conv)
next
  assume "\<forall>x \<in> set s. P x"
  then show "\<forall>x \<in> set (dropWhile P s). P x" by (meson set_dropWhileD)
qed

lemma strip_empty_iff: "strip s = [] \<longleftrightarrow> (\<forall>c \<in> set s. isspace c)"
  by (simp add: strip_def dropWhile_eq_Nil_conv all_dropWhile_iff)

lemma strip_idem [simp]: "strip (strip s) = strip s"
proof -
  define ys where "ys = dropWhile isspace s"
  define zs where "zs = rev (dropWhile isspace (rev ys))"
  have s: "strip s = zs" by (simp add: strip_def ys_def zs_def)
  show ?thesis
  proof (cases "zs = []")
    case True
    with s show ?thesis by simp
  next
    case False
    have split: "ys = zs @ rev (takeWhile isspace (rev ys))"
      unfolding zs_def by (metis rev_append rev_rev_ident takeWhile_dropWhile_id)
    from False split have ne: "ys \<noteq> []" by auto
    then have "\<not> isspace (hd ys)" unfolding ys_def by (simp add: hd_dropWhile)
    moreover from split False have "hd ys = hd zs" by (metis hd_append2)
    ultimately have front: "dropWhile isspace zs = zs" using False by (simp add: dropWhile_id)
    have rz: "rev zs = dropWhile isspace (rev ys)" by (simp add: zs_def)
    from False have "rev zs \<noteq> []" by simp
    then have "\<not> isspace (hd (rev zs))" unfolding rz by (simp add: hd_dropWhile)
    then have "dropWhile isspace (rev zs) = rev zs" using False by (simp add: dropWhile_id)
    then have "strip zs = zs" by (simp add: strip_def front)
    with s show ?thesis by simp
  qed
qed

section \<open>Lemmas on the loop bodies\<close>

lemma safety_fill_eq: "safety_fill n xs = xs @ replicate (n - length xs) []"
proof (induction n xs rule: safety_fill.induct)
  case (1 n translated)
  show ?case
  proof (cases "length translated < n")
    case True
    then have "n - length translated = Suc (n - Suc (length translated))" by simp
    with True 1 show ?thesis
      by (subst safety_fill.simps) (simp add: replicate_app_Cons_same)
  next
    case False
    then show ?thesis by (subst safety_fill.simps) simp
  qed
qed

lemma length_write_back [simp]: "length (write_back tt idx batch) = length batch"
  by (induction batch arbitrary: idx) auto

lemma write_back_eq:
  "write_back tt idx batch =
     map (\<lambda>(j, sub). if idx + j < length tt then sub\<lparr>content := tt ! (idx + j)\<rparr> else sub)
       (zip [0..<length batch] batch)"
proof (induction batch arbitrary: idx)
  case Nil
  then show ?case by simp
next
  case (Cons s batch)
  have "zip [0..<length (s # batch)] (s # batch) = (0, s) # zip (map Suc [0..<length batch]) batch"
    by (simp add: upt_conv_Cons map_Suc_upt del: upt_Suc)
  then show ?case
    using Cons.IH [of "Suc idx"] by (simp add: zip_map1 case_prod_unfold comp_def del: upt_Suc)
qed

lemma nth_write_back:
  "j < length batch \<Longrightarrow>
   write_back tt idx batch ! j =
     (if idx + j < length tt then (batch ! j)\<lparr>content := tt ! (idx + j)\<rparr> else batch ! j)"
  by (simp add: write_back_eq)

lemma chunks_Nil [simp]: "chunks k [] = []"
  by (simp add: chunks.simps)

lemma chunks_0 [simp]: "chunks 0 xs = []"
  by (simp add: chunks.simps)

lemma chunks_Cons: "0 < k \<Longrightarrow> xs \<noteq> [] \<Longrightarrow> chunks k xs = take k xs # chunks k (drop k xs)"
  by (subst chunks.simps) simp

lemma srt_loop_fold:
  "srt_loop tr cb k i subs st = fold (srt_batch tr cb (length subs)) (chunks k (drop i subs)) st"
proof (induction tr cb k i subs st rule: srt_loop.induct)
  case (1 tr cb k i subs st)
  show ?case
  proof (cases "0 < k \<and> i < length subs")
    case True
    then have "chunks k (drop i subs) = take k (drop i subs) # chunks k (drop (i + k) subs)"
      by (simp add: chunks_Cons add.commute)
    with True 1 show ?thesis
      by (subst srt_loop.simps) simp
  next
    case False
    then have "chunks k (drop i subs) = []" by auto
    with False show ?thesis by (subst srt_loop.simps) auto
  qed
qed

lemma txt_loop_fold:
  "txt_loop tr cb k i ltp st = fold (txt_batch tr cb (length ltp)) (chunks k (drop i ltp)) st"
proof (induction tr cb k i ltp st rule: txt_loop.induct)
  case (1 tr cb k i ltp st)
  show ?case
  proof (cases "0 < k \<and> i < length ltp")
    case True
    then have "chunks k (drop i ltp) = take k (drop i ltp) # chunks k (drop (i + k) ltp)"
      by (simp add: chunks_Cons add.commute)
    with True 1 show ?thesis
      by (subst txt_loop.simps) simp
  next
    case False
    then have "chunks k (drop i ltp) = []" by auto
    with False show ?thesis by (subst txt_loop.simps) auto
  qed
qed

lemma concat_chunks: "0 < k \<Longrightarrow> concat (chunks k xs) = xs"
proof (induction k xs rule: chunks.induct)
  case (1 k xs)
  then show ?case by (cases "xs = []") (simp_all add: chunks_Cons)
qed

lemma ceil_div_step: "0 < k \<Longrightarrow> 0 < n \<Longrightarrow> ceil_div n k = Suc (ceil_div (n - k) k)"
proof -
  assume k: "0 < k" and n: "0 < n"
  show ?thesis
  proof (cases "k \<le> n")
    case True
    then have "n + k - 1 = (n - k + k - 1) + k" using k by arith
    then have "(n + k - 1) div k = (n - k + k - 1) div k + 1"
      using k by (metis div_add_self2 less_numeral_extra(3))
    then show ?thesis by (simp add: ceil_div_def)
  next
    case False
    then have e: "n + k - 1 = (n - 1) + k" and l: "n - 1 < k" using n by arith+
    have "(n + k - 1) div k = (n - 1) div k + 1"
      unfolding e using k by (metis div_add_self2 less_numeral_extra(3))
    moreover have "(n - 1) div k = 0" using l by simp
    moreover have "n - k + k - 1 = k - 1" using False by arith
    moreover have "(k - 1) div k = 0" using k by simp
    ultimately show ?thesis by (simp add: ceil_div_def)
  qed
qed

lemma batches_nth_slice:
  "map (\<lambda>j. xs ! j) [i * k ..< min ((i + 1) * k) (length xs)] = take k (drop (i * k) xs)"
  (is "?l = ?r")
proof (rule nth_equalityI)
  have "min ((i + 1) * k) (length xs) - i * k = min (length xs - i * k) k"
    by (simp add: min_def) arith
  then show len: "length ?l = length ?r" by simp
  fix j assume j: "j < length ?l"
  then have "j < min (i * k + k) (length xs) - i * k" by (simp add: add.commute)
  then have a: "i * k + j < min ((i + 1) * k) (length xs)"
    and b: "j < k" "i * k + j < length xs" by (simp_all add: less_diff_conv add.commute)
  have "?l ! j = xs ! (i * k + j)" using j a by (simp del: upt_Suc)
  moreover have "?r ! j = xs ! (i * k + j)" using b by simp
  ultimately show "?l ! j = ?r ! j" by simp
qed

lemma map_upt_Suc_shift: "map f [0 ..< Suc n] = f 0 # map (\<lambda>i. f (Suc i)) [0 ..< n]"
  by (induction n) auto

lemma chunks_batches: "0 < k \<Longrightarrow> chunks k xs = batches k xs"
proof (induction k xs rule: chunks.induct)
  case (1 k xs)
  show ?case
  proof (cases "xs = []")
    case True
    then show ?thesis using "1.prems" by (simp add: batches_def ceil_div_def)
  next
    case False
    with 1 have IH: "chunks k (drop k xs) = batches k (drop k xs)" by simp
    have cd: "ceil_div (length xs) k = Suc (ceil_div (length xs - k) k)"
      using ceil_div_step [of k "length xs"] False "1.prems" by simp
    have "batches k xs = map (\<lambda>i. take k (drop (i * k) xs)) [0 ..< Suc (ceil_div (length xs - k) k)]"
      unfolding batches_def batches_nth_slice cd ..
    also have "\<dots> = take k xs # map (\<lambda>i. take k (drop (Suc i * k) xs)) [0 ..< ceil_div (length xs - k) k]"
      unfolding map_upt_Suc_shift by simp
    also have "map (\<lambda>i. take k (drop (Suc i * k) xs)) [0 ..< ceil_div (length xs - k) k] = batches k (drop k xs)"
      unfolding batches_def batches_nth_slice by (simp add: add.commute)
    finally show ?thesis using False "1.prems" IH by (simp add: chunks_Cons)
  qed
qed

lemma frame_update [simp]: "frame (sub\<lparr>content := c\<rparr>) = frame sub"
  by (simp add: frame_def)

lemma frame_fields:
  "frame a = frame b \<Longrightarrow>
     index a = index b \<and> start a = start b \<and> end_time a = end_time b \<and> proprietary a = proprietary b
     \<and> b = a\<lparr>content := content b\<rparr>"
  by (cases a, cases b) (simp add: frame_def)

lemma map_frame_write_back [simp]: "map frame (write_back tt idx batch) = map frame batch"
  by (induction batch arbitrary: idx) auto

lemma srt_batch_frame:
  "map frame (new_subs (srt_batch tr cb tot batch st)) = map frame (new_subs st) @ map frame batch"
  by (simp add: srt_batch_def Let_def split: prod.splits)

lemma srt_fold_frame:
  "map frame (new_subs (fold (srt_batch tr cb tot) bs st)) = map frame (new_subs st) @ map frame (concat bs)"
  by (induction bs arbitrary: st) (simp_all add: srt_batch_frame)

lemma srt_engine_frame:
  assumes "0 < batch_size" and "translate_srt_engine tr cb batch_size subs = Inr st"
  shows "map frame (new_subs st) = map frame subs"
proof -
  from assms have "st = srt_loop tr cb (nat batch_size) 0 subs srt_init"
    by (simp add: translate_srt_engine_def)
  then show ?thesis using assms(1)
    by (simp add: srt_loop_fold srt_fold_frame concat_chunks srt_init_def)
qed

lemma reindex_length [simp]: "length (reindex n subs) = length subs"
  by (induction subs arbitrary: n) auto

lemma reindex_nth:
  "i < length subs \<Longrightarrow> reindex n subs ! i = (subs ! i)\<lparr>index := Some (n + int i)\<rparr>"
proof (induction subs arbitrary: n i)
  case Nil
  then show ?case by simp
next
  case (Cons s subs)
  then show ?case by (cases i) (simp_all add: add.assoc)
qed

lemma length_reconstruct [simp]: "length (reconstruct m idx lines) = length lines"
  by (induction lines arbitrary: idx) auto

text \<open>
  C1. For every parsed document and every behaviour of the translator (a list of any
  length, an error marker, any other string), with a positive batch size
  \<^verbatim>\<open>translate_srt\<close> writes out exactly one subtitle block per parsed subtitle: the list it
  hands to the serialiser has one subtitle per parsed subtitle, and so has the list of
  blocks that the serialiser (\<open>compose_blocks\<close>) writes; and \<^verbatim>\<open>translate_plain_text\<close> writes exactly one line per input
  line.
\<close>

theorem count_invariant:
  "0 < batch_size \<Longrightarrow>
     (\<exists>st. translate_srt_engine tr cb batch_size subs = Inr st \<and>
            length (new_subs st) = length subs \<and>
            length (compose_blocks (new_subs st)) = length subs) \<and>
     (\<exists>st out. translate_plain_text_engine tr' cb' batch_size lines = Inr (st, out) \<and>
            length out = length lines)"
proof (intro conjI)
  assume k: "0 < batch_size"
  then obtain st where st: "translate_srt_engine tr cb batch_size subs = Inr st"
    by (simp add: translate_srt_engine_def)
  with k have "map frame (new_subs st) = map frame subs" by (rule srt_engine_frame)
  then have len: "length (new_subs st) = length subs" by (rule map_eq_imp_length_eq)
  then have "length (compose_blocks (new_subs st)) = length subs"
    by (simp add: compose_blocks_def)
  with st len show "\<exists>st. translate_srt_engine tr cb batch_size subs = Inr st \<and>
            length (new_subs st) = length subs \<and>
            length (compose_blocks (new_subs st)) = length subs" by blast
  from k show "\<exists>st out. translate_plain_text_engine tr' cb' batch_size lines = Inr (st, out) \<and>
            length out = length lines"
    by (simp add: translate_plain_text_engine_def Let_def)
qed

theorem count_invariant_witness:
  "(0::int) < 2 \<and>
   (\<exists>st. translate_srt_engine (\<lambda>n texts. RList [''x'']) True 2
            [mk_sub 1 0 ''a'', mk_sub 2 2000000 ''b'', mk_sub 3 4000000 ''c''] = Inr st \<and>
          length (new_subs st) = 3 \<and> length (compose_blocks (new_subs st)) = 3) \<and>
   (\<exists>st out. translate_plain_text_engine (\<lambda>n texts. RStr ''Error: down'') False 2
            [''a\<newline>'', ''\<newline>'', ''b''] = Inr (st, out) \<and>
          length out = 3)"
  using count_invariant [of 2 "\<lambda>n texts. RList [''x'']" True
      "[mk_sub 1 0 ''a'', mk_sub 2 2000000 ''b'', mk_sub 3 4000000 ''c'']"
      "\<lambda>n texts. RStr ''Error: down''" False "[''a\<newline>'', ''\<newline>'', ''b'']"]
  by (simp add: eval_nat_numeral)

text \<open>
  C7. For every parsed document, every behaviour of the translator and a positive batch
  size, the subtitle at each position of the list handed to the serialiser is the parsed
  subtitle at that position with at most its content changed, so start and end are the
  parsed ones; and the blocks written carry the same start and end and the index numbers
  1, 2, 3, ... whatever the parsed index was.
\<close>

theorem timing_kept_index_renumbered:
  "0 < batch_size \<Longrightarrow>
     (\<exists>st. translate_srt_engine tr cb batch_size subs = Inr st \<and>
        length (compose_blocks (new_subs st)) = length subs \<and>
        (\<forall>i < length subs.
           new_subs st ! i = (subs ! i)\<lparr>content := content (new_subs st ! i)\<rparr> \<and>
           start (new_subs st ! i) = start (subs ! i) \<and>
           end_time (new_subs st ! i) = end_time (subs ! i) \<and>
           start (compose_blocks (new_subs st) ! i) = start (subs ! i) \<and>
           end_time (compose_blocks (new_subs st) ! i) = end_time (subs ! i) \<and>
           index (compose_blocks (new_subs st) ! i) = Some (int i + 1)))"
proof -
  assume k: "0 < batch_size"
  then obtain st where st: "translate_srt_engine tr cb batch_size subs = Inr st"
    by (simp add: translate_srt_engine_def)
  with k have fr: "map frame (new_subs st) = map frame subs" by (rule srt_engine_frame)
  then have len: "length (new_subs st) = length subs" by (rule map_eq_imp_length_eq)
  have "\<forall>i < length subs.
           new_subs st ! i = (subs ! i)\<lparr>content := content (new_subs st ! i)\<rparr> \<and>
           start (new_subs st ! i) = start (subs ! i) \<and>
           end_time (new_subs st ! i) = end_time (subs ! i) \<and>
           start (compose_blocks (new_subs st) ! i) = start (subs ! i) \<and>
           end_time (compose_blocks (new_subs st) ! i) = end_time (subs ! i) \<and>
           index (compose_blocks (new_subs st) ! i) = Some (int i + 1)"
  proof (intro allI impI)
    fix i assume i: "i < length subs"
    with fr len have "frame (subs ! i) = frame (new_subs st ! i)"
      by (metis nth_map)
    from frame_fields [OF this] i len show
      "new_subs st ! i = (subs ! i)\<lparr>content := content (new_subs st ! i)\<rparr> \<and>
           start (new_subs st ! i) = start (subs ! i) \<and>
           end_time (new_subs st ! i) = end_time (subs ! i) \<and>
           start (compose_blocks (new_subs st) ! i) = start (subs ! i) \<and>
           end_time (compose_blocks (new_subs st) ! i) = end_time (subs ! i) \<and>
           index (compose_blocks (new_subs st) ! i) = Some (int i + 1)"
      by (simp add: compose_blocks_def reindex_nth add.commute)
  qed
  with st len show ?thesis by (simp add: compose_blocks_def)
qed

theorem timing_kept_index_renumbered_witness:
  "(0::int) < 2 \<and>
   (\<exists>st. translate_srt_engine (\<lambda>n texts. RList [''x'']) True 2
            [mk_sub 7 0 ''a'', mk_sub 7 2000000 ''b'', mk_sub 9 4000000 ''c''] = Inr st \<and>
      (2::nat) < 3 \<and>
      start (new_subs st ! 2) = 4000000 \<and> end_time (new_subs st ! 2) = 5500000 \<and>
      start (compose_blocks (new_subs st) ! 2) = 4000000 \<and>
      end_time (compose_blocks (new_subs st) ! 2) = 5500000 \<and>
      index (compose_blocks (new_subs st) ! 2) = Some 3)"
  using timing_kept_index_renumbered [of 2 "\<lambda>n texts. RList [''x'']" True
      "[mk_sub 7 0 ''a'', mk_sub 7 2000000 ''b'', mk_sub 9 4000000 ''c'']"]
  by (auto simp: mk_sub_def)

lemma str_in_prefix: "str_in sub (sub @ rest)"
proof -
  have sw: "startswith (sub @ rest) sub" for rest
    by (induction sub) auto
  show ?thesis
  proof (cases "sub @ rest")
    case Nil
    then show ?thesis by simp
  next
    case (Cons c cs)
    with sw [of rest] show ?thesis by simp
  qed
qed

lemma str_in_append: "str_in sub s \<Longrightarrow> str_in sub (s @ rest)"
proof (induction s)
  case Nil
  then show ?case using str_in_prefix [of "[]" rest] by simp
next
  case (Cons c cs)
  have sw: "startswith s sub \<Longrightarrow> startswith (s @ rest) sub" for s
    by (induction s sub rule: startswith.induct) auto
  from Cons sw [of "c # cs"] show ?case by auto
qed

lemma error_marker_has_Error: "str_in ''Error'' (''Error during translation: '' @ e)"
  using str_in_append [of "''Error''" "''Error''" "'' during translation: '' @ e"] by simp

lemma translate_raise:
  "chat model (system_prompt text source_lang target_lang source_code target_code instruction) = Inl e \<Longrightarrow>
   translate chat convert text source_lang target_lang source_code target_code model instruction =
     RStr (''Error during translation: '' @ e)"
  by (simp add: translate_def)

lemma write_back_map:
  "write_back (map f batch) 0 batch = map (\<lambda>sub. sub\<lparr>content := f sub\<rparr>) batch"
  by (rule nth_equalityI) (simp_all add: nth_write_back)

lemma handle_result_marker:
  "str_in ''Error'' s \<Longrightarrow> handle_result (RStr s) texts = (texts, [''Batch error: '' @ s])"
  by (simp add: handle_result_def)

lemma srt_batch_marker:
  assumes "py_any (map (\<lambda>sub. strip (content sub)) batch)"
    and "tr (length (requests st)) (map (\<lambda>sub. strip (content sub)) batch) = RStr s"
    and "str_in ''Error'' s"
  shows "srt_batch tr cb tot batch st =
     st\<lparr>requests := requests st @ [map (\<lambda>sub. strip (content sub)) batch],
        log_lines := log_lines st @ [''Batch error: '' @ s],
        new_subs := new_subs st @ map (\<lambda>sub. sub\<lparr>content := strip (content sub)\<rparr>) batch,
        current_progress := current_progress st + length batch,
        progress_calls := report cb (current_progress st + length batch) tot (progress_calls st)\<rparr>"
  using assms by (simp add: srt_batch_def Let_def handle_result_marker safety_fill_eq write_back_map)

lemma txt_batch_marker:
  assumes "tr (length (requests st)) (map snd batch_tuples) = RStr s"
    and "str_in ''Error'' s"
  shows "txt_batch tr cb tot batch_tuples st =
     st\<lparr>requests := requests st @ [map snd batch_tuples],
        log_lines := log_lines st @ [''Batch error: '' @ s],
        translated_lines_map :=
          map_back (map fst batch_tuples) 0 (map snd batch_tuples) (translated_lines_map st),
        current_progress := current_progress st + length batch_tuples,
        progress_calls := report cb (current_progress st + length batch_tuples) tot (progress_calls st)\<rparr>"
  using assms by (simp add: txt_batch_def Let_def handle_result_marker safety_fill_eq)

lemma translate_list:
  "translate chat convert (TList req) source_lang target_lang source_code target_code model instruction =
     (case chat model (system_prompt (TList req) source_lang target_lang source_code target_code instruction) of
        Inl e \<Rightarrow> RStr (''Error during translation: '' @ e)
      | Inr reply \<Rightarrow>
          RList (map (if str_in ''Traditional Chinese'' target_lang then convert else id)
              (if length (split_nl (strip reply)) \<noteq> length req
               then filter (\<lambda>line. strip line \<noteq> []) (split_nl (strip reply))
               else split_nl (strip reply))))"
  by (simp add: translate_def Let_def split: sum.splits)



lemma result_cases:
  assumes res: "call = RList (map c (if length ls \<noteq> n then filter P ls else ls))"
    and nb: "\<forall>line \<in> set (map c (filter P ls)). Q line"
  shows "(length ls \<noteq> n \<longrightarrow>
            (\<exists>out. call = RList out \<and> out = map c (filter P ls) \<and> (\<forall>line \<in> set out. Q line))) \<and>
         (length ls = n \<longrightarrow>
            (\<exists>out. call = RList out \<and> out = map c ls \<and> length out = n))"
proof (cases "length ls = n")
  case True
  with res have "call = RList (map c ls) \<and> map c ls = map c ls \<and> length (map c ls) = n"
    by simp
  then have "\<exists>out. call = RList out \<and> out = map c ls \<and> length out = n" ..
  with True show ?thesis by simp
next
  case False
  with res nb have "call = RList (map c (filter P ls)) \<and> map c (filter P ls) = map c (filter P ls) \<and>
      (\<forall>line \<in> set (map c (filter P ls)). Q line)"
    by simp
  then have "\<exists>out. call = RList out \<and> out = map c (filter P ls) \<and> (\<forall>line \<in> set out. Q line)" ..
  with False show ?thesis by simp
qed

text \<open>
  C10. For a list request whose reply, stripped and split at newlines, has a number of
  lines different from the number of requested texts, \<^verbatim>\<open>translate\<close> returns the lines that
  are not whitespace-only (passed through the script converter when the target language
  asks for it), so the returned list has no whitespace-only line as long as the converter
  does not turn a line with text into a blank one; when the numbers agree it returns all
  lines, unfiltered, and the list has the length of the request.
\<close>

theorem mismatch_drops_blank_lines:
  assumes "chat model (system_prompt (TList req) source_lang target_lang source_code target_code instruction)
             = Inr reply"
    and "c = (if str_in ''Traditional Chinese'' target_lang then convert else id)"
    and "\<forall>line. strip line \<noteq> [] \<longrightarrow> strip (c line) \<noteq> []"
  shows "(length (split_nl (strip reply)) \<noteq> length req \<longrightarrow>
            (\<exists>out. translate chat convert (TList req) source_lang target_lang source_code target_code
                      model instruction = RList out \<and>
                   out = map c (filter (\<lambda>line. strip line \<noteq> []) (split_nl (strip reply))) \<and>
                   (\<forall>line \<in> set out. strip line \<noteq> []))) \<and>
         (length (split_nl (strip reply)) = length req \<longrightarrow>
            (\<exists>out. translate chat convert (TList req) source_lang target_lang source_code target_code
                      model instruction = RList out \<and>
                   out = map c (split_nl (strip reply)) \<and> length out = length req))"
proof -
  let ?lines = "split_nl (strip reply)"
  have c: "(if str_in ''Traditional Chinese'' target_lang then convert else id) = c"
    by (simp add: assms(2))
  have res: "translate chat convert (TList req) source_lang target_lang source_code target_code
               model instruction =
             RList (map c (if length ?lines \<noteq> length req
                           then filter (\<lambda>line. strip line \<noteq> []) ?lines else ?lines))"
    unfolding translate_list c by (simp add: assms(1))
  have nb: "\<forall>line \<in> set (map c (filter (\<lambda>line. strip line \<noteq> []) ?lines)). strip line \<noteq> []"
    using assms(3) by auto
  from res nb show ?thesis by (rule result_cases)
qed

theorem mismatch_drops_blank_lines_witness:
  "translate (\<lambda>m p. Inr ''un\<newline> \<newline>deux'') id (TList [''one'', ''two'']) ''English'' ''French'' None None
      ''translategemma'' None = RList [''un'', ''deux''] \<and>
   translate (\<lambda>m p. Inr ''un\<newline> \<newline>deux'') id (TList [''one'', '' '', ''two'']) ''English'' ''French'' None None
      ''translategemma'' None = RList [''un'', '' '', ''deux'']"
proof -
  have sp: "split_nl (strip ''un\<newline> \<newline>deux'') = [''un'', '' '', ''deux'']" by code_simp
  have fl: "filter (\<lambda>line. strip line \<noteq> []) [''un'', '' '', ''deux''] = [''un'', ''deux'']"
    by code_simp
  have c: "id = (if str_in ''Traditional Chinese'' ''French'' then id else id)" by simp
  have nb: "\<forall>line. strip line \<noteq> [] \<longrightarrow> strip (id line) \<noteq> []" by simp
  note a = mismatch_drops_blank_lines [where chat = "\<lambda>m p. Inr ''un\<newline> \<newline>deux''"
      and model = "''translategemma''" and req = "[''one'', ''two'']" and source_lang = "''English''"
      and target_lang = "''French''" and source_code = None and target_code = None
      and instruction = None and reply = "''un\<newline> \<newline>deux''" and c = id and convert = id,
      OF refl c nb, unfolded sp fl]
  note b = mismatch_drops_blank_lines [where chat = "\<lambda>m p. Inr ''un\<newline> \<newline>deux''"
      and model = "''translategemma''" and req = "[''one'', '' '', ''two'']" and source_lang = "''English''"
      and target_lang = "''French''" and source_code = None and target_code = None
      and instruction = None and reply = "''un\<newline> \<newline>deux''" and c = id and convert = id,
      OF refl c nb, unfolded sp fl]
  from a have 1: "translate (\<lambda>m p. Inr ''un\<newline> \<newline>deux'') id (TList [''one'', ''two'']) ''English'' ''French'' None None
      ''translategemma'' None = RList [''un'', ''deux'']" by simp
  from b have 2: "translate (\<lambda>m p. Inr ''un\<newline> \<newline>deux'') id (TList [''one'', '' '', ''two'']) ''English'' ''French'' None None
      ''translategemma'' None = RList [''un'', '' '', ''deux'']" by simp
  from 1 2 show ?thesis by blast
qed

lemma map_back_upds: "map_back inds j ts m = m(drop j inds [\<mapsto>] ts)"
proof (induction ts arbitrary: j m)
  case Nil
  then show ?case by simp
next
  case (Cons t ts)
  show ?case
  proof (cases "j < length inds")
    case True
    then have d: "drop j inds = inds ! j # drop (Suc j) inds" by (simp add: Cons_nth_drop_Suc)
    have "m(drop j inds [\<mapsto>] t # ts) = (m(inds ! j \<mapsto> t))(drop (Suc j) inds [\<mapsto>] ts)"
      by (simp only: d map_upds_Cons)
    moreover have "map_back inds j (t # ts) m = map_back inds (Suc j) ts (m(inds ! j \<mapsto> t))"
      using True by simp
    ultimately show ?thesis by (simp only: Cons.IH)
  next
    case False
    with Cons show ?thesis by simp
  qed
qed

lemma zip_take_right: "zip xs ys = zip xs (take (length xs) ys)"
proof (induction xs arbitrary: ys)
  case Nil
  then show ?case by simp
next
  case (Cons x xs)
  then show ?case by (cases ys) auto
qed

lemma map_upds_nth:
  assumes "distinct inds" and "i < length inds" and "length inds \<le> length ts"
  shows "(m(inds [\<mapsto>] ts)) (inds ! i) = Some (ts ! i)"
proof -
  let ?ts = "take (length inds) ts"
  have len: "length inds = length ?ts" using assms(3) by simp
  have "map fst (zip inds ?ts) = inds" using len by (simp only: map_fst_zip)
  then have d: "distinct (map fst (rev (zip inds ?ts)))"
    using assms(1) by (simp add: rev_map [symmetric])
  have "(inds ! i, ?ts ! i) \<in> set (zip inds ?ts)"
    unfolding in_set_zip using assms(2) len by auto
  then have "(inds ! i, ?ts ! i) \<in> set (rev (zip inds ?ts))" by simp
  with d have "map_of (rev (zip inds ?ts)) (inds ! i) = Some (?ts ! i)"
    by (rule map_of_is_SomeI)
  moreover have "zip inds ts = zip inds ?ts" by (rule zip_take_right)
  ultimately show ?thesis using assms(2) by (simp add: map_upds_def)
qed


lemma distinct_lines_to_process_aux:
  "\<forall>p \<in> set (lines_to_process idx lines). idx \<le> fst p"
proof (induction lines arbitrary: idx)
  case Nil
  then show ?case by simp
next
  case (Cons l ls)
  from Cons [of "Suc idx"] show ?case by (auto simp: Suc_le_eq less_imp_le)
qed

lemma distinct_lines_to_process: "distinct (map fst (lines_to_process idx lines))"
proof (induction lines arbitrary: idx)
  case Nil
  then show ?case by simp
next
  case (Cons l ls)
  have "idx \<notin> fst ` set (lines_to_process (Suc idx) ls)"
    using distinct_lines_to_process_aux [of "Suc idx" ls] by auto
  with Cons [of "Suc idx"] show ?case by simp
qed

lemma handle_result_list [simp]: "handle_result (RList res) texts = (res, [])"
  by (simp add: handle_result_def)







lemma length_batches [simp]: "length (batches k xs) = ceil_div (length xs) k"
  by (simp add: batches_def)

lemma concat_take_chunks: "0 < k \<Longrightarrow> concat (take j (chunks k xs)) = take (j * k) xs"
proof (induction j arbitrary: xs)
  case 0
  then show ?case by simp
next
  case (Suc j)
  show ?case
  proof (cases "xs = []")
    case True
    then show ?thesis by simp
  next
    case False
    have "take (Suc j * k) xs = take k xs @ take (j * k) (drop k xs)"
      by (simp add: take_add)
    with False Suc show ?thesis by (simp add: chunks_Cons)
  qed
qed

lemma fold_progress:
  assumes "\<And>b s. current_progress (f b s) = current_progress s + length b"
    and "\<And>b s. progress_calls (f b s) = report cb (current_progress s + length b) tot (progress_calls s)"
  shows "current_progress (fold f bs st) = current_progress st + length (concat bs) \<and>
         progress_calls (fold f bs st) =
           progress_calls st @
           (if cb then map (\<lambda>j. (current_progress st + length (concat (take (Suc j) bs)), tot)) [0..<length bs]
            else [])"
proof (induction bs arbitrary: st)
  case Nil
  then show ?case by simp
next
  case (Cons b bs)
  have sh: "map (\<lambda>j. (current_progress st + length (concat (take (Suc j) (b # bs))), tot)) [0..<length (b # bs)]
      = (current_progress st + length b, tot) #
        map (\<lambda>j. (current_progress st + length b + length (concat (take (Suc j) bs)), tot)) [0..<length bs]"
    using map_upt_Suc_shift [of "\<lambda>j. (current_progress st + length (concat (take (Suc j) (b # bs))), tot)" "length bs"]
    by (simp add: add.assoc)
  from Cons.IH [of "f b st"]
  have 1: "current_progress (fold f bs (f b st)) = current_progress (f b st) + length (concat bs)"
    and 2: "progress_calls (fold f bs (f b st)) =
           progress_calls (f b st) @
           (if cb then map (\<lambda>j. (current_progress (f b st) + length (concat (take (Suc j) bs)), tot)) [0..<length bs]
            else [])"
    by simp_all
  show ?case
    unfolding fold_Cons comp_apply 1 2 assms sh
    by (simp add: report_def add.assoc)
qed

lemma srt_batch_progress:
  "current_progress (srt_batch tr cb tot b st) = current_progress st + length b"
  "progress_calls (srt_batch tr cb tot b st) =
     report cb (current_progress st + length b) tot (progress_calls st)"
  by (simp_all add: srt_batch_def Let_def split: prod.splits)

lemma txt_batch_progress:
  "current_progress (txt_batch tr cb tot b st) = current_progress st + length b"
  "progress_calls (txt_batch tr cb tot b st) =
     report cb (current_progress st + length b) tot (progress_calls st)"
  by (simp_all add: txt_batch_def Let_def split: prod.splits)

lemma chunks_progress:
  assumes "0 < k"
  shows "map (\<lambda>j. (length (concat (take (Suc j) (chunks k xs))), tot)) [0..<length (chunks k xs)]
       = map (\<lambda>j. (min ((j + 1) * k) (length xs), tot)) [0..<ceil_div (length xs) k]"
  using assms by (simp add: concat_take_chunks chunks_batches [symmetric] min.commute flip: length_batches)

lemma snd_lines_to_process: "map snd (lines_to_process idx lines) = map strip (non_empty_lines lines)"
  by (induction lines arbitrary: idx) (simp_all add: non_empty_lines_def)

lemma length_lines_to_process: "length (lines_to_process idx lines) = length (non_empty_lines lines)"
  using snd_lines_to_process [of idx lines] by (metis length_map)

lemma srt_engine_progress:
  assumes "0 < batch_size"
  shows "\<exists>st. translate_srt_engine tr True batch_size subs = Inr st \<and>
       progress_calls st =
         map (\<lambda>j. (min ((j + 1) * nat batch_size) (length subs), length subs))
           [0..<ceil_div (length subs) (nat batch_size)]"
proof -
  let ?k = "nat batch_size"
  from assms have k: "0 < ?k" by simp
  let ?st = "fold (srt_batch tr True (length subs)) (chunks ?k subs) srt_init"
  have e: "translate_srt_engine tr True batch_size subs = Inr ?st"
    using assms by (simp add: translate_srt_engine_def srt_loop_fold)
  have "progress_calls ?st =
      progress_calls srt_init @
      map (\<lambda>j. (current_progress srt_init + length (concat (take (Suc j) (chunks ?k subs))), length subs))
        [0..<length (chunks ?k subs)]"
    using fold_progress [of "srt_batch tr True (length subs)" True "length subs" "chunks ?k subs" srt_init]
    by (simp add: srt_batch_progress)
  also have "\<dots> = map (\<lambda>j. (min ((j + 1) * ?k) (length subs), length subs)) [0..<ceil_div (length subs) ?k]"
    using chunks_progress [OF k, of subs "length subs"] by (simp add: srt_init_def)
  finally show ?thesis using e by blast
qed

lemma txt_engine_progress:
  assumes "0 < batch_size"
  shows "\<exists>st out. translate_plain_text_engine tr True batch_size lines = Inr (st, out) \<and>
       progress_calls st =
         map (\<lambda>j. (min ((j + 1) * nat batch_size) (length (non_empty_lines lines)),
                    length (non_empty_lines lines)))
           [0..<ceil_div (length (non_empty_lines lines)) (nat batch_size)]"
proof -
  let ?k = "nat batch_size"
  let ?ltp = "lines_to_process 0 lines"
  from assms have k: "0 < ?k" by simp
  let ?st = "fold (txt_batch tr True (length ?ltp)) (chunks ?k ?ltp) txt_init"
  have e: "translate_plain_text_engine tr True batch_size lines =
      Inr (?st, reconstruct (translated_lines_map ?st) 0 lines)"
    using assms by (simp add: translate_plain_text_engine_def txt_loop_fold Let_def)
  have "progress_calls ?st =
      progress_calls txt_init @
      map (\<lambda>j. (current_progress txt_init + length (concat (take (Suc j) (chunks ?k ?ltp))), length ?ltp))
        [0..<length (chunks ?k ?ltp)]"
    using fold_progress [of "txt_batch tr True (length ?ltp)" True "length ?ltp" "chunks ?k ?ltp" txt_init]
    by (simp add: txt_batch_progress)
  also have "\<dots> = map (\<lambda>j. (min ((j + 1) * ?k) (length ?ltp), length ?ltp)) [0..<ceil_div (length ?ltp) ?k]"
    using chunks_progress [OF k, of ?ltp "length ?ltp"] by (simp add: txt_init_def)
  finally show ?thesis using e by (simp add: length_lines_to_process)
qed

text \<open>
  C9 as stated fails for \<^verbatim>\<open>translate_srt\<close>: with one subtitle with text and one empty
  subtitle the callback receives the total 2, the number of all subtitles, while the
  document has 1 non-empty unit.
\<close>

theorem srt_progress_total_counterexample:
  "map_sum id progress_calls
     (translate_srt_engine (returns_lines [''Bonjour'', []]) True 20
        [mk_sub 1 0 ''Hello'', mk_sub 2 2000000 []]) = Inr [(2, 2)] \<and>
   length (non_empty_units [mk_sub 1 0 ''Hello'', mk_sub 2 2000000 []]) = 1"
  by code_simp

text \<open>
  C9, amended. With a progress callback and a positive batch size \<open>k\<close>, each function
  invokes the callback exactly once after each batch, in order. \<^verbatim>\<open>translate_srt\<close> cuts all
  \<open>N\<close> subtitles, empty ones included, into \<open>ceil(N/k)\<close> batches and reports after batch \<open>j\<close>
  (from 0) the pair (\<open>min((j+1)*k, N)\<close>, \<open>N\<close>): subtitles processed so far and the number of
  all subtitles. \<^verbatim>\<open>translate_plain_text\<close> cuts the \<open>n\<close> non-empty lines into \<open>ceil(n/k)\<close>
  batches and reports (\<open>min((j+1)*k, n)\<close>, \<open>n\<close>).
\<close>

theorem progress_reports:
  "0 < batch_size \<Longrightarrow>
     (\<exists>st. translate_srt_engine tr True batch_size subs = Inr st \<and>
        progress_calls st =
          map (\<lambda>j. (min ((j + 1) * nat batch_size) (length subs), length subs))
            [0..<ceil_div (length subs) (nat batch_size)]) \<and>
     (\<exists>st out. translate_plain_text_engine tr' True batch_size lines = Inr (st, out) \<and>
        progress_calls st =
          map (\<lambda>j. (min ((j + 1) * nat batch_size) (length (non_empty_lines lines)),
                     length (non_empty_lines lines)))
            [0..<ceil_div (length (non_empty_lines lines)) (nat batch_size)])"
  using srt_engine_progress [of batch_size tr subs] txt_engine_progress [of batch_size tr' lines]
  by blast

theorem progress_reports_witness:
  "(0::int) < 2 \<and>
   (\<exists>st. translate_srt_engine (returns_lines [''x'']) True 2
           [mk_sub 1 0 ''a'', mk_sub 2 2000000 [], mk_sub 3 4000000 ''c''] = Inr st \<and>
      progress_calls st = [(2, 3), (3, 3)]) \<and>
   (\<exists>st out. translate_plain_text_engine (returns_lines [''x'']) True 2
           [''a\<newline>'', ''\<newline>'', ''b\<newline>'', ''c\<newline>'', ''d''] = Inr (st, out) \<and>
      progress_calls st = [(2, 4), (4, 4)])"
proof -
  have m1: "map (\<lambda>j. (min ((j + 1) * nat 2)
                 (length [mk_sub 1 0 ''a'', mk_sub 2 2000000 [], mk_sub 3 4000000 ''c'']),
               length [mk_sub 1 0 ''a'', mk_sub 2 2000000 [], mk_sub 3 4000000 ''c'']))
          [0..<ceil_div (length [mk_sub 1 0 ''a'', mk_sub 2 2000000 [], mk_sub 3 4000000 ''c'']) (nat 2)]
        = [(2, 3), (3, 3)]"
    by code_simp
  have m2: "map (\<lambda>j. (min ((j + 1) * nat 2)
                 (length (non_empty_lines [''a\<newline>'', ''\<newline>'', ''b\<newline>'', ''c\<newline>'', ''d''])),
               length (non_empty_lines [''a\<newline>'', ''\<newline>'', ''b\<newline>'', ''c\<newline>'', ''d''])))
          [0..<ceil_div (length (non_empty_lines [''a\<newline>'', ''\<newline>'', ''b\<newline>'', ''c\<newline>'', ''d''])) (nat 2)]
        = [(2, 4), (4, 4)]"
    by code_simp
  have k: "(0::int) < 2" by simp
  from k progress_reports [OF k, of "returns_lines [''x'']"
      "[mk_sub 1 0 ''a'', mk_sub 2 2000000 [], mk_sub 3 4000000 ''c'']"
      "returns_lines [''x'']" "[''a\<newline>'', ''\<newline>'', ''b\<newline>'', ''c\<newline>'', ''d'']", unfolded m1 m2]
  show ?thesis by blast
qed

lemma map_chunks: "map (map f) (chunks k xs) = chunks k (map f xs)"
proof (induction k xs rule: chunks.induct)
  case (1 k xs)
  show ?case
  proof (cases "k = 0 \<or> xs = []")
    case True
    then show ?thesis by auto
  next
    case False
    with 1 show ?thesis by (simp add: chunks_Cons take_map drop_map)
  qed
qed

lemma srt_batch_requests:
  "requests (srt_batch tr cb tot b st) =
     requests st @ (if py_any (map (\<lambda>sub. strip (content sub)) b)
                    then [map (\<lambda>sub. strip (content sub)) b] else [])"
  by (simp add: srt_batch_def Let_def split: prod.splits)

lemma srt_fold_requests:
  "requests (fold (srt_batch tr cb tot) bs st) =
     requests st @ filter py_any (map (map (\<lambda>sub. strip (content sub))) bs)"
  by (induction bs arbitrary: st) (simp_all add: srt_batch_requests)

lemma txt_batch_requests:
  "requests (txt_batch tr cb tot b st) = requests st @ [map snd b]"
  by (simp add: txt_batch_def Let_def split: prod.splits)

lemma txt_fold_requests:
  "requests (fold (txt_batch tr cb tot) bs st) = requests st @ map (map snd) bs"
  by (induction bs arbitrary: st) (simp_all add: txt_batch_requests)

lemma non_empty_texts: "non_empty (map (\<lambda>sub. strip (content sub)) b) = map (\<lambda>sub. strip (content sub)) (non_empty_units b)"
  by (simp add: non_empty_def non_empty_units_def filter_map comp_def)

lemma py_any_non_empty: "py_any texts \<longleftrightarrow> non_empty texts \<noteq> []"
  by (simp add: py_any_def non_empty_def list_ex_iff filter_empty_conv)

lemma non_empty_sent:
  "map non_empty (filter py_any (map (map (\<lambda>sub. strip (content sub))) bs)) =
     filter (\<lambda>b. b \<noteq> []) (map (\<lambda>slice. map (\<lambda>sub. strip (content sub)) (non_empty_units slice)) bs)"
  by (induction bs) (simp_all add: py_any_non_empty non_empty_texts)

lemma srt_engine_requests:
  assumes "0 < batch_size"
  shows "\<exists>st. translate_srt_engine tr cb batch_size subs = Inr st \<and>
      requests st = filter py_any (map (map (\<lambda>sub. strip (content sub))) (batches (nat batch_size) subs))"
  using assms
  by (simp add: translate_srt_engine_def srt_loop_fold srt_fold_requests srt_init_def chunks_batches)

lemma txt_engine_requests:
  assumes "0 < batch_size"
  shows "\<exists>st out. translate_plain_text_engine tr cb batch_size lines = Inr (st, out) \<and>
      requests st = batches (nat batch_size) (map strip (non_empty_lines lines))"
proof -
  have "map (map snd) (chunks (nat batch_size) (lines_to_process 0 lines)) =
        batches (nat batch_size) (map strip (non_empty_lines lines))"
    unfolding map_chunks snd_lines_to_process using assms by (simp add: chunks_batches)
  then show ?thesis using assms
    by (simp add: translate_plain_text_engine_def Let_def txt_loop_fold txt_fold_requests txt_init_def)
qed

text \<open>
  C3 as stated fails for \<^verbatim>\<open>translate_srt\<close>: with the subtitles A, (empty), B and batch size
  2 there are 2 non-empty units, so the claim promises \<open>ceil(2/2) = 1\<close> call carrying A and
  B; the function makes two calls, for the slices (A, empty) and (B).
\<close>

theorem srt_batches_counterexample:
  "map_sum id requests
     (translate_srt_engine (returns_lines []) False 2
        [mk_sub 1 0 ''A'', mk_sub 2 2000000 [], mk_sub 3 4000000 ''B''])
     = Inr [[''A'', []], [''B'']] \<and>
   ceil_div (length (non_empty_units [mk_sub 1 0 ''A'', mk_sub 2 2000000 [], mk_sub 3 4000000 ''B''])) 2 = 1"
  by code_simp

text \<open>
  C3, amended. For every batch size \<open>k \<ge> 1\<close>: \<^verbatim>\<open>translate_plain_text\<close>, on a document with
  \<open>n\<close> non-empty lines, makes exactly \<open>ceil(n/k)\<close> calls, and call \<open>i\<close> carries the trimmed
  texts of the non-empty lines at the positions \<open>[i*k, min((i+1)*k, n))\<close> of the sequence
  of non-empty lines, in document order. \<^verbatim>\<open>translate_srt\<close>, on a document with \<open>N\<close>
  subtitles, cuts the sequence of all subtitles, empty ones included, into the slices
  \<open>[i*k, min((i+1)*k, N))\<close>; it makes one call for each slice that holds a non-empty unit
  and none for the other slices, in the order of the slices, hence at most \<open>ceil(N/k)\<close>
  calls, and the non-empty texts that a call carries are the trimmed texts of the
  non-empty units of its slice, in document order.
\<close>

theorem batch_boundaries:
  "0 < batch_size \<Longrightarrow>
     (\<exists>st out. translate_plain_text_engine tr cb batch_size lines = Inr (st, out) \<and>
        requests st = batches (nat batch_size) (map strip (non_empty_lines lines)) \<and>
        length (requests st) = ceil_div (length (non_empty_lines lines)) (nat batch_size)) \<and>
     (\<exists>st. translate_srt_engine tr' cb' batch_size subs = Inr st \<and>
        map non_empty (requests st) =
          filter (\<lambda>b. b \<noteq> [])
            (map (\<lambda>slice. map (\<lambda>sub. strip (content sub)) (non_empty_units slice))
               (batches (nat batch_size) subs)) \<and>
        length (requests st) \<le> ceil_div (length subs) (nat batch_size))"
proof -
  assume k: "0 < batch_size"
  from txt_engine_requests [OF k, of tr cb lines] obtain st out where
    t: "translate_plain_text_engine tr cb batch_size lines = Inr (st, out)"
       "requests st = batches (nat batch_size) (map strip (non_empty_lines lines))"
    by blast
  then have tl: "length (requests st) = ceil_div (length (non_empty_lines lines)) (nat batch_size)"
    by simp
  from srt_engine_requests [OF k, of tr' cb' subs] obtain st' where
    s: "translate_srt_engine tr' cb' batch_size subs = Inr st'"
       "requests st' = filter py_any (map (map (\<lambda>sub. strip (content sub))) (batches (nat batch_size) subs))"
    by blast
  have s1: "map non_empty (requests st') =
          filter (\<lambda>b. b \<noteq> [])
            (map (\<lambda>slice. map (\<lambda>sub. strip (content sub)) (non_empty_units slice))
               (batches (nat batch_size) subs))"
    unfolding s(2) by (rule non_empty_sent)
  have "length (requests st') \<le> length (map (map (\<lambda>sub. strip (content sub))) (batches (nat batch_size) subs))"
    unfolding s(2) by (rule length_filter_le)
  then have s2: "length (requests st') \<le> ceil_div (length subs) (nat batch_size)" by simp
  from t tl s(1) s1 s2 show ?thesis by blast
qed

theorem batch_boundaries_witness:
  "(0::int) < 2 \<and>
   (\<exists>st out. translate_plain_text_engine (returns_lines [''x'']) False 2
        [''a\<newline>'', ''\<newline>'', '' b \<newline>'', ''c''] = Inr (st, out) \<and>
      requests st = [[''a'', ''b''], [''c'']] \<and> length (requests st) = 2) \<and>
   (\<exists>st. translate_srt_engine (returns_lines [''x'']) False 2
        [mk_sub 1 0 ''A'', mk_sub 2 2000000 [], mk_sub 3 4000000 ''B''] = Inr st \<and>
      map non_empty (requests st) = [[''A''], [''B'']] \<and> length (requests st) \<le> 2)"
proof -
  have e1: "batches (nat 2) (map strip (non_empty_lines [''a\<newline>'', ''\<newline>'', '' b \<newline>'', ''c'']))
      = [[''a'', ''b''], [''c'']]"
    by code_simp
  have e2: "ceil_div (length (non_empty_lines [''a\<newline>'', ''\<newline>'', '' b \<newline>'', ''c''])) (nat 2) = 2"
    by code_simp
  have e3: "filter (\<lambda>b. b \<noteq> [])
            (map (\<lambda>slice. map (\<lambda>sub. strip (content sub)) (non_empty_units slice))
               (batches (nat 2) [mk_sub 1 0 ''A'', mk_sub 2 2000000 [], mk_sub 3 4000000 ''B'']))
      = [[''A''], [''B'']]"
    by code_simp
  have e4: "ceil_div (length [mk_sub 1 0 ''A'', mk_sub 2 2000000 [], mk_sub 3 4000000 ''B'']) (nat 2) = 2"
    by code_simp
  have k: "(0::int) < 2" by simp
  from k batch_boundaries [OF k, of "returns_lines [''x'']" False
      "[''a\<newline>'', ''\<newline>'', '' b \<newline>'', ''c'']" "returns_lines [''x'']" False
      "[mk_sub 1 0 ''A'', mk_sub 2 2000000 [], mk_sub 3 4000000 ''B'']", unfolded e1 e2 e3 e4]
  show ?thesis by blast
qed

lemma lines_to_process_enumerate:
  "lines_to_process idx lines =
     map (\<lambda>(i, l). (i, strip l)) (filter (\<lambda>(i, l). strip l \<noteq> []) (enumerate idx lines))"
  by (induction lines arbitrary: idx) simp_all

lemma in_lines_to_process:
  "(i, t) \<in> set (lines_to_process 0 lines) \<longleftrightarrow>
     i < length lines \<and> strip (lines ! i) \<noteq> [] \<and> t = strip (lines ! i)"
  by (auto simp: lines_to_process_enumerate in_set_enumerate_eq)

lemma fst_lines_to_process:
  "fst ` set (lines_to_process 0 lines) = {i. i < length lines \<and> strip (lines ! i) \<noteq> []}"
proof (intro set_eqI iffI)
  fix i assume "i \<in> fst ` set (lines_to_process 0 lines)"
  then obtain t where "(i, t) \<in> set (lines_to_process 0 lines)" by auto
  then show "i \<in> {i. i < length lines \<and> strip (lines ! i) \<noteq> []}"
    by (simp add: in_lines_to_process)
next
  fix i assume "i \<in> {i. i < length lines \<and> strip (lines ! i) \<noteq> []}"
  then have "(i, strip (lines ! i)) \<in> set (lines_to_process 0 lines)"
    by (simp add: in_lines_to_process)
  then show "i \<in> fst ` set (lines_to_process 0 lines)" by (rule image_eqI [rotated]) simp
qed

lemma nth_reconstruct:
  "j < length lines \<Longrightarrow>
   reconstruct m idx lines ! j = (case m (idx + j) of Some t \<Rightarrow> t @ [CHR 0x0A] | None \<Rightarrow> lines ! j)"
proof (induction lines arbitrary: idx j)
  case Nil
  then show ?case by simp
next
  case (Cons l ls)
  show ?case
  proof (cases j)
    case 0
    show ?thesis unfolding 0 by (simp split: option.splits)
  next
    case (Suc j')
    with Cons.prems have "j' < length ls" by simp
    from Cons.IH [OF this, of "Suc idx"] show ?thesis unfolding Suc by (simp split: option.splits)
  qed
qed

lemma txt_batch_map:
  "\<exists>ts. length b \<le> length ts \<and>
        translated_lines_map (txt_batch tr cb tot b st) = (translated_lines_map st)(map fst b [\<mapsto>] ts)"
proof -
  let ?ts = "safety_fill (length (map snd b)) (fst (handle_result (tr (length (requests st)) (map snd b)) (map snd b)))"
  have "length b \<le> length ?ts" by (simp add: safety_fill_eq)
  moreover have "translated_lines_map (txt_batch tr cb tot b st) = (translated_lines_map st)(map fst b [\<mapsto>] ?ts)"
    by (simp add: txt_batch_def Let_def map_back_upds split: prod.splits)
  ultimately show ?thesis by blast
qed

lemma txt_batch_dom:
  "dom (translated_lines_map (txt_batch tr cb tot b st)) = dom (translated_lines_map st) \<union> fst ` set b"
proof -
  from txt_batch_map [where b = b and tr = tr and cb = cb and tot = tot and st = st] obtain ts where
    ts: "length b \<le> length ts"
      "translated_lines_map (txt_batch tr cb tot b st) = (translated_lines_map st)(map fst b [\<mapsto>] ts)"
    by blast
  then show ?thesis by (simp add: dom_map_upds Un_commute)
qed

lemma txt_batch_other:
  "i \<notin> fst ` set b \<Longrightarrow>
   translated_lines_map (txt_batch tr cb tot b st) i = translated_lines_map st i"
proof -
  assume i: "i \<notin> fst ` set b"
  from txt_batch_map [where b = b and tr = tr and cb = cb and tot = tot and st = st] obtain ts where
      "translated_lines_map (txt_batch tr cb tot b st) = (translated_lines_map st)(map fst b [\<mapsto>] ts)"
    by blast
  with i show ?thesis by (simp add: map_upds_apply_nontin)
qed

lemma txt_fold_dom:
  "dom (translated_lines_map (fold (txt_batch tr cb tot) bs st)) =
     dom (translated_lines_map st) \<union> fst ` set (concat bs)"
  by (induction bs arbitrary: st) (simp_all add: txt_batch_dom image_Un Un_assoc)

lemma txt_fold_other:
  "i \<notin> fst ` set (concat bs) \<Longrightarrow>
   translated_lines_map (fold (txt_batch tr cb tot) bs st) i = translated_lines_map st i"
  by (induction bs arbitrary: st) (simp_all add: txt_batch_other image_Un)

lemma txt_engine_dom:
  assumes "0 < batch_size"
    and "translate_plain_text_engine tr cb batch_size lines = Inr (st, out)"
  shows "out = reconstruct (translated_lines_map st) 0 lines"
    and "dom (translated_lines_map st) = {i. i < length lines \<and> strip (lines ! i) \<noteq> []}"
proof -
  let ?ltp = "lines_to_process 0 lines"
  from assms have st: "st = fold (txt_batch tr cb (length ?ltp)) (chunks (nat batch_size) ?ltp) txt_init"
    and out: "out = reconstruct (translated_lines_map st) 0 lines"
    by (auto simp: translate_plain_text_engine_def Let_def txt_loop_fold)
  show "out = reconstruct (translated_lines_map st) 0 lines" by (rule out)
  have "dom (translated_lines_map st) = fst ` set ?ltp"
    unfolding st txt_fold_dom using assms(1) by (simp add: concat_chunks txt_init_def)
  then show "dom (translated_lines_map st) = {i. i < length lines \<and> strip (lines ! i) \<noteq> []}"
    by (simp add: fst_lines_to_process)
qed

text \<open>
  C8 as stated fails: a translated line is always written with a newline appended, so a
  final line that had no newline gains one (and the whitespace around a translated line is
  not kept).
\<close>

theorem final_newline_counterexample:
  "map_sum id snd
     (translate_plain_text (backend_says ''Bonjour\<newline>Monde'') id ''English'' ''French''
        ''translategemma'' False 20 None [''  Hello\<newline>'', ''World''])
     = Inr [''Bonjour\<newline>'', ''Monde\<newline>''] \<and>
   last (last [''  Hello\<newline>'', ''World'']) \<noteq> CHR 0x0A \<and>
   last (last [''Bonjour\<newline>'', ''Monde\<newline>'']) = CHR 0x0A"
  by code_simp

text \<open>
  C8, amended. For every plain-text document, a positive batch size and every behaviour
  of the translator, the output has one entry per input line, at the same position. A
  line that is empty or whitespace-only has no entry in \<^verbatim>\<open>translated_lines_map\<close> and is
  written as the original line, unchanged. Every other line has an entry, the unit's
  current text, and is written as that text followed by a single newline character,
  whatever whitespace or line ending the original line had.
\<close>

theorem plain_text_reconstruction:
  "0 < batch_size \<Longrightarrow>
     (\<exists>st out. translate_plain_text_engine tr cb batch_size lines = Inr (st, out) \<and>
        length out = length lines \<and>
        (\<forall>i < length lines.
           (translated_lines_map st i = None \<longleftrightarrow> strip (lines ! i) = []) \<and>
           out ! i = (case translated_lines_map st i of
                        None \<Rightarrow> lines ! i
                      | Some t \<Rightarrow> t @ [CHR 0x0A])))"
proof -
  assume k: "0 < batch_size"
  then obtain st out where e: "translate_plain_text_engine tr cb batch_size lines = Inr (st, out)"
    by (simp add: translate_plain_text_engine_def Let_def)
  note r = txt_engine_dom [OF k e]
  have len: "length out = length lines" by (simp add: r(1))
  have "\<forall>i < length lines.
           (translated_lines_map st i = None \<longleftrightarrow> strip (lines ! i) = []) \<and>
           out ! i = (case translated_lines_map st i of
                        None \<Rightarrow> lines ! i
                      | Some t \<Rightarrow> t @ [CHR 0x0A])"
  proof (intro allI impI)
    fix i assume i: "i < length lines"
    have "translated_lines_map st i = None \<longleftrightarrow> i \<notin> dom (translated_lines_map st)"
      by (simp add: domIff)
    also have "\<dots> \<longleftrightarrow> strip (lines ! i) = []" using i by (simp add: r(2))
    finally have a: "translated_lines_map st i = None \<longleftrightarrow> strip (lines ! i) = []" .
    have b: "out ! i = (case translated_lines_map st i of
                        None \<Rightarrow> lines ! i
                      | Some t \<Rightarrow> t @ [CHR 0x0A])"
      unfolding r(1) using nth_reconstruct [OF i, of "translated_lines_map st" 0] by simp
    from a b show "(translated_lines_map st i = None \<longleftrightarrow> strip (lines ! i) = []) \<and>
           out ! i = (case translated_lines_map st i of
                        None \<Rightarrow> lines ! i
                      | Some t \<Rightarrow> t @ [CHR 0x0A])" by blast
  qed
  with e len show ?thesis by blast
qed

theorem plain_text_reconstruction_witness:
  "(0::int) < 2 \<and>
   (\<exists>st out. translate_plain_text_engine (returns_lines [''x'']) False 2
        [''a\<newline>'', '' \<newline>'', ''b''] = Inr (st, out) \<and>
      length out = 3 \<and> out ! 1 = '' \<newline>'' \<and>
      (\<exists>t. translated_lines_map st 2 = Some t \<and> out ! 2 = t @ [CHR 0x0A]))"
proof -
  have k: "(0::int) < 2" by simp
  from plain_text_reconstruction [OF k, of "returns_lines [''x'']" False "[''a\<newline>'', '' \<newline>'', ''b'']"]
  obtain st out where
    e: "translate_plain_text_engine (returns_lines [''x'']) False 2 [''a\<newline>'', '' \<newline>'', ''b''] = Inr (st, out)"
    and len: "length out = length [''a\<newline>'', '' \<newline>'', ''b'']"
    and all: "\<forall>i < length [''a\<newline>'', '' \<newline>'', ''b''].
           (translated_lines_map st i = None \<longleftrightarrow> strip ([''a\<newline>'', '' \<newline>'', ''b''] ! i) = []) \<and>
           out ! i = (case translated_lines_map st i of
                        None \<Rightarrow> [''a\<newline>'', '' \<newline>'', ''b''] ! i
                      | Some t \<Rightarrow> t @ [CHR 0x0A])"
    by blast
  have s1: "strip '' \<newline>'' = []" and s2: "strip ''b'' \<noteq> []" by code_simp+
  from all [rule_format, of 1] s1 have o1: "out ! 1 = '' \<newline>''" by simp
  from all [rule_format, of 2] s2 have o2: "\<exists>t. translated_lines_map st 2 = Some t \<and> out ! 2 = t @ [CHR 0x0A]"
    by (cases "translated_lines_map st 2") simp_all
  from len have l3: "length out = 3" by simp
  from k e l3 o1 o2 show ?thesis by blast
qed

lemma srt_batch_error:
  assumes "\<forall>n texts. \<exists>s. tr n texts = RStr s \<and> str_in ''Error'' s"
  shows "new_subs (srt_batch tr cb tot b st) =
     new_subs st @ (if py_any (map (\<lambda>sub. strip (content sub)) b)
                    then map (\<lambda>sub. sub\<lparr>content := strip (content sub)\<rparr>) b else b)"
proof (cases "py_any (map (\<lambda>sub. strip (content sub)) b)")
  case True
  from assms obtain s where
    "tr (length (requests st)) (map (\<lambda>sub. strip (content sub)) b) = RStr s" "str_in ''Error'' s"
    by blast
  from srt_batch_marker [where tr = tr and st = st and batch = b and s = s and cb = cb and tot = tot, OF True this]
    True show ?thesis by simp
next
  case False
  then show ?thesis by (simp add: srt_batch_def Let_def)
qed

lemma srt_fold_error:
  assumes "\<forall>n texts. \<exists>s. tr n texts = RStr s \<and> str_in ''Error'' s"
  shows "\<exists>out. new_subs (fold (srt_batch tr cb tot) bs st) = new_subs st @ out \<and>
     list_all2 (\<lambda>a b. b = a \<or> b = a\<lparr>content := strip (content a)\<rparr>) (concat bs) out"
proof (induction bs arbitrary: st)
  case Nil
  then show ?case by simp
next
  case (Cons b bs)
  let ?R = "\<lambda>a b. b = a \<or> b = a\<lparr>content := strip (content a)\<rparr>"
  let ?o = "if py_any (map (\<lambda>sub. strip (content sub)) b)
            then map (\<lambda>sub. sub\<lparr>content := strip (content sub)\<rparr>) b else b"
  have 1: "new_subs (srt_batch tr cb tot b st) = new_subs st @ ?o"
    by (rule srt_batch_error [OF assms])
  have 2: "list_all2 ?R b ?o"
    by (simp add: list_all2_conv_all_nth)
  from Cons [of "srt_batch tr cb tot b st"] obtain out where
    3: "new_subs (fold (srt_batch tr cb tot) bs (srt_batch tr cb tot b st)) =
        new_subs (srt_batch tr cb tot b st) @ out"
    and 4: "list_all2 ?R (concat bs) out"
    by blast
  from 2 4 have "list_all2 ?R (concat (b # bs)) (?o @ out)"
    by (simp add: list_all2_appendI)
  moreover from 1 3 have "new_subs (fold (srt_batch tr cb tot) (b # bs) st) = new_subs st @ (?o @ out)"
    by simp
  ultimately show ?case by blast
qed

lemma txt_batch_error:
  assumes "\<forall>n texts. \<exists>s. tr n texts = RStr s \<and> str_in ''Error'' s"
  shows "translated_lines_map (txt_batch tr cb tot b st) =
     (translated_lines_map st)(map fst b [\<mapsto>] map snd b)"
proof -
  from assms obtain s where "tr (length (requests st)) (map snd b) = RStr s" "str_in ''Error'' s"
    by blast
  from txt_batch_marker [where tr = tr and st = st and batch_tuples = b and s = s and cb = cb and tot = tot, OF this]
  show ?thesis by (simp add: map_back_upds)
qed

lemma txt_fold_error:
  assumes "\<forall>n texts. \<exists>s. tr n texts = RStr s \<and> str_in ''Error'' s"
    and "distinct (map fst (concat bs))"
    and "(i, t) \<in> set (concat bs)"
  shows "translated_lines_map (fold (txt_batch tr cb tot) bs st) i = Some t"
  using assms(2,3)
proof (induction bs arbitrary: st)
  case Nil
  then show ?case by simp
next
  case (Cons b bs)
  from Cons.prems(1) have db: "distinct (map fst b)" and dbs: "distinct (map fst (concat bs))"
    and disj: "fst ` set b \<inter> fst ` set (concat bs) = {}"
    by auto
  show ?case
  proof (cases "(i, t) \<in> set b")
    case True
    then obtain j where j: "j < length b" "b ! j = (i, t)" by (auto simp: in_set_conv_nth)
    then have "((translated_lines_map st)(map fst b [\<mapsto>] map snd b)) (map fst b ! j) = Some (map snd b ! j)"
      using db by (intro map_upds_nth) simp_all
    with j have "translated_lines_map (txt_batch tr cb tot b st) i = Some t"
      by (simp add: txt_batch_error [OF assms(1)])
    moreover from True disj have "i \<notin> fst ` set (concat bs)" by force
    ultimately show ?thesis by (simp add: txt_fold_other)
  next
    case False
    with Cons.prems(2) have "(i, t) \<in> set (concat bs)" by simp
    from Cons.IH [OF dbs this] show ?thesis by simp
  qed
qed

lemma srt_engine_error:
  assumes "0 < batch_size"
    and "\<forall>n texts. \<exists>s. tr n texts = RStr s \<and> str_in ''Error'' s"
  shows "\<exists>st. translate_srt_engine tr cb batch_size subs = Inr st \<and>
     list_all2 (\<lambda>a b. b = a \<or> b = a\<lparr>content := strip (content a)\<rparr>) subs (new_subs st)"
proof -
  let ?st = "fold (srt_batch tr cb (length subs)) (chunks (nat batch_size) subs) srt_init"
  have e: "translate_srt_engine tr cb batch_size subs = Inr ?st"
    using assms(1) by (simp add: translate_srt_engine_def srt_loop_fold)
  from srt_fold_error [OF assms(2), of cb "length subs" "chunks (nat batch_size) subs" srt_init]
  have "list_all2 (\<lambda>a b. b = a \<or> b = a\<lparr>content := strip (content a)\<rparr>) subs (new_subs ?st)"
    using assms(1) by (auto simp: concat_chunks srt_init_def)
  with e show ?thesis by blast
qed

lemma txt_engine_error:
  assumes "0 < batch_size"
    and "\<forall>n texts. \<exists>s. tr n texts = RStr s \<and> str_in ''Error'' s"
  shows "\<exists>st out. translate_plain_text_engine tr cb batch_size lines = Inr (st, out) \<and>
     out = map (\<lambda>line. if strip line = [] then line else strip line @ [CHR 0x0A]) lines"
proof -
  let ?ltp = "lines_to_process 0 lines"
  let ?st = "fold (txt_batch tr cb (length ?ltp)) (chunks (nat batch_size) ?ltp) txt_init"
  let ?out = "reconstruct (translated_lines_map ?st) 0 lines"
  have e: "translate_plain_text_engine tr cb batch_size lines = Inr (?st, ?out)"
    using assms(1) by (simp add: translate_plain_text_engine_def Let_def txt_loop_fold)
  have cc: "concat (chunks (nat batch_size) ?ltp) = ?ltp"
    using assms(1) by (simp add: concat_chunks)
  have "?out = map (\<lambda>line. if strip line = [] then line else strip line @ [CHR 0x0A]) lines"
  proof (rule nth_equalityI)
    show "length ?out = length (map (\<lambda>line. if strip line = [] then line else strip line @ [CHR 0x0A]) lines)"
      by simp
  next
    fix i assume "i < length ?out"
    then have i: "i < length lines" by simp
    show "?out ! i = map (\<lambda>line. if strip line = [] then line else strip line @ [CHR 0x0A]) lines ! i"
    proof (cases "strip (lines ! i) = []")
      case True
      then have "i \<notin> fst ` set (concat (chunks (nat batch_size) ?ltp))"
        unfolding cc by (simp add: fst_lines_to_process)
      then have "translated_lines_map ?st i = None"
        by (simp add: txt_fold_other txt_init_def)
      with i True show ?thesis by (simp add: nth_reconstruct)
    next
      case False
      with i have "(i, strip (lines ! i)) \<in> set (concat (chunks (nat batch_size) ?ltp))"
        unfolding cc by (simp add: in_lines_to_process)
      moreover have "distinct (map fst (concat (chunks (nat batch_size) ?ltp)))"
        unfolding cc by (rule distinct_lines_to_process)
      ultimately have "translated_lines_map ?st i = Some (strip (lines ! i))"
        using assms(2) by (intro txt_fold_error) 
      with i False show ?thesis by (simp add: nth_reconstruct)
    qed
  qed
  with e show ?thesis by simp
qed

text \<open>
  C6 as stated fails: when every call returns an error marker, a subtitle whose content
  has leading or trailing whitespace is written back trimmed, so its text is not
  identical to the input text.
\<close>

theorem fallback_trims_counterexample:
  "map_sum id new_subs
     (translate_srt backend_down id ''English'' ''French'' ''translategemma'' False 20 None
        [mk_sub 1 0 '' Hi''])
     = Inr [mk_sub 1 0 ''Hi''] \<and>
   content (mk_sub 1 0 ''Hi'') \<noteq> content (mk_sub 1 0 '' Hi'')"
  by code_simp

text \<open>
  C6, amended. If every call of the translator returns an error marker (a string
  containing \<^verbatim>\<open>"Error"\<close>), then with a positive batch size the output is the input up to
  trimming. In \<^verbatim>\<open>translate_srt\<close> each subtitle of the output is the input subtitle at that
  position, either unchanged or with its content trimmed of leading and trailing
  whitespace, so the trimmed texts of input and output agree. In \<^verbatim>\<open>translate_plain_text\<close>
  a line that is empty or whitespace-only is written unchanged and every other line is
  written as its trimmed text followed by a newline.
\<close>

theorem fallback_identity_up_to_trimming:
  assumes "0 < batch_size"
    and "\<forall>n texts. \<exists>s. tr n texts = RStr s \<and> str_in ''Error'' s"
    and "\<forall>n texts. \<exists>s. tr' n texts = RStr s \<and> str_in ''Error'' s"
  shows "(\<exists>st. translate_srt_engine tr cb batch_size subs = Inr st \<and>
            length (new_subs st) = length subs \<and>
            (\<forall>i < length subs.
               new_subs st ! i = subs ! i \<or>
               new_subs st ! i = (subs ! i)\<lparr>content := strip (content (subs ! i))\<rparr>) \<and>
            map (\<lambda>sub. strip (content sub)) (new_subs st) = map (\<lambda>sub. strip (content sub)) subs) \<and>
         (\<exists>st out. translate_plain_text_engine tr' cb' batch_size lines = Inr (st, out) \<and>
            out = map (\<lambda>line. if strip line = [] then line else strip line @ [CHR 0x0A]) lines)"
proof -
  from srt_engine_error [OF assms(1,2), of cb subs] obtain st where
    e: "translate_srt_engine tr cb batch_size subs = Inr st"
    and r: "list_all2 (\<lambda>a b. b = a \<or> b = a\<lparr>content := strip (content a)\<rparr>) subs (new_subs st)"
    by blast
  from r have len: "length (new_subs st) = length subs"
    by (simp add: list_all2_lengthD)
  from r have nth: "\<forall>i < length subs.
               new_subs st ! i = subs ! i \<or>
               new_subs st ! i = (subs ! i)\<lparr>content := strip (content (subs ! i))\<rparr>"
    by (simp add: list_all2_conv_all_nth)
  have "map (\<lambda>sub. strip (content sub)) (new_subs st) = map (\<lambda>sub. strip (content sub)) subs"
  proof (rule nth_equalityI)
    show "length (map (\<lambda>sub. strip (content sub)) (new_subs st)) = length (map (\<lambda>sub. strip (content sub)) subs)"
      by (simp add: len)
  next
    fix i assume "i < length (map (\<lambda>sub. strip (content sub)) (new_subs st))"
    then have i: "i < length subs" by (simp add: len)
    with nth have "new_subs st ! i = subs ! i \<or>
               new_subs st ! i = (subs ! i)\<lparr>content := strip (content (subs ! i))\<rparr>" by blast
    then have "strip (content (new_subs st ! i)) = strip (content (subs ! i))" by auto
    with i len show "map (\<lambda>sub. strip (content sub)) (new_subs st) ! i = map (\<lambda>sub. strip (content sub)) subs ! i"
      by simp
  qed
  with e len nth txt_engine_error [OF assms(1,3), of cb' lines] show ?thesis by blast
qed

theorem fallback_identity_up_to_trimming_witness:
  "(0::int) < 1 \<and>
   (\<exists>st. translate_srt_engine
           (client backend_down id ''English'' ''French'' ''translategemma'' srt_default_instruction)
           False 1 [mk_sub 1 0 '' Hi'', mk_sub 2 2000000 ''  ''] = Inr st \<and>
      length (new_subs st) = 2 \<and>
      map (\<lambda>sub. strip (content sub)) (new_subs st) = [''Hi'', []]) \<and>
   (\<exists>st out. translate_plain_text_engine
           (client backend_down id ''English'' ''French'' ''translategemma'' txt_default_instruction)
           False 1 [''  Hello \<newline>'', ''\<newline>'', ''World''] = Inr (st, out) \<and>
      out = [''Hello\<newline>'', ''\<newline>'', ''World\<newline>''])"
proof -
  have k: "(0::int) < 1" by simp
  have down: "\<forall>n texts. \<exists>s. client backend_down id ''English'' ''French'' ''translategemma'' ins n texts = RStr s \<and>
      str_in ''Error'' s" for ins
    using error_marker_has_Error [of "''connection refused''"]
    by (simp add: client_def backend_down_def translate_def)
  have e1: "map (\<lambda>sub. strip (content sub)) [mk_sub 1 0 '' Hi'', mk_sub 2 2000000 ''  ''] = [''Hi'', []]"
    by code_simp
  have e2: "map (\<lambda>line. if strip line = [] then line else strip line @ [CHR 0x0A])
      [''  Hello \<newline>'', ''\<newline>'', ''World''] = [''Hello\<newline>'', ''\<newline>'', ''World\<newline>'']"
    by code_simp
  have e3: "length [mk_sub 1 0 '' Hi'', mk_sub 2 2000000 ''  ''] = 2" by simp
  from k fallback_identity_up_to_trimming [where cb = False and cb' = False
      and tr = "client backend_down id ''English'' ''French'' ''translategemma'' srt_default_instruction"
      and tr' = "client backend_down id ''English'' ''French'' ''translategemma'' txt_default_instruction"
      and subs = "[mk_sub 1 0 '' Hi'', mk_sub 2 2000000 ''  '']"
      and lines = "[''  Hello \<newline>'', ''\<newline>'', ''World'']",
      OF k down down, unfolded e1 e2 e3]
  show ?thesis by auto
qed

text \<open>
  The sibling path: \<^verbatim>\<open>translate_plain_text\<close> never sends an empty text and writes every
  empty or whitespace-only line as it was.
\<close>

lemma plain_text_skips_empty_lines:
  assumes "0 < batch_size"
  shows "\<exists>st out. translate_plain_text_engine tr cb batch_size lines = Inr (st, out) \<and>
     (\<forall>req \<in> set (requests st). \<forall>t \<in> set req. t \<noteq> []) \<and>
     (\<forall>i < length lines. strip (lines ! i) = [] \<longrightarrow> out ! i = lines ! i)"
proof -
  from txt_engine_requests [OF assms, of tr cb lines] obtain st out where
    e: "translate_plain_text_engine tr cb batch_size lines = Inr (st, out)"
    and rq: "requests st = batches (nat batch_size) (map strip (non_empty_lines lines))"
    by blast
  note r = txt_engine_dom [OF assms e]
  have cc: "concat (requests st) = map strip (non_empty_lines lines)"
    unfolding rq using assms by (simp add: chunks_batches [symmetric] concat_chunks)
  have a: "\<forall>req \<in> set (requests st). \<forall>t \<in> set req. t \<noteq> []"
  proof (intro ballI)
    fix req t assume "req \<in> set (requests st)" "t \<in> set req"
    then have "t \<in> set (concat (requests st))" by auto
    then have "t \<in> strip ` set (non_empty_lines lines)" unfolding cc by simp
    then show "t \<noteq> []" by (auto simp: non_empty_lines_def)
  qed
  have b: "\<forall>i < length lines. strip (lines ! i) = [] \<longrightarrow> out ! i = lines ! i"
  proof (intro allI impI)
    fix i assume i: "i < length lines" and s: "strip (lines ! i) = []"
    then have "i \<notin> dom (translated_lines_map st)" by (simp add: r(2))
    then have "translated_lines_map st i = None" by (simp add: domIff)
    with i show "out ! i = lines ! i" unfolding r(1) by (simp add: nth_reconstruct)
  qed
  from e a b show ?thesis by blast
qed

text \<open>
  C2 fails for \<^verbatim>\<open>translate_srt\<close>. An empty subtitle followed by one with text form one
  batch; the request carries the empty text along, and when the backend answers with the
  one translated line the empty subtitle receives it while the subtitle that had text is
  left empty.
\<close>

theorem empty_subtitle_sent_and_overwritten:
  "translate_srt (backend_says ''Bonjour'') id ''English'' ''French'' ''translategemma'' False 20 None
     [mk_sub 1 0 [], mk_sub 2 2000000 ''Hello'']
   = Inr \<lparr>current_progress = 2, progress_calls = [], log_lines = [],
          requests = [[[], ''Hello'']],
          new_subs = [mk_sub 1 0 ''Bonjour'', mk_sub 2 2000000 []]\<rparr>"
  by code_simp

lemma srt_batch_log:
  "log_lines (srt_batch tr cb tot b st) =
     log_lines st @
     (if py_any (map (\<lambda>sub. strip (content sub)) b)
      then snd (handle_result (tr (length (requests st)) (map (\<lambda>sub. strip (content sub)) b))
                  (map (\<lambda>sub. strip (content sub)) b))
      else [])"
  by (simp add: srt_batch_def Let_def split: prod.splits)

lemma txt_batch_log:
  "log_lines (txt_batch tr cb tot b st) =
     log_lines st @ snd (handle_result (tr (length (requests st)) (map snd b)) (map snd b))"
  by (simp add: txt_batch_def Let_def split: prod.splits)

lemma srt_fold_log:
  "log_lines (fold (srt_batch tr cb tot) bs st) =
     log_lines st @
     concat (map (\<lambda>(i, texts). snd (handle_result (tr i texts) texts))
               (enumerate (length (requests st))
                  (filter py_any (map (map (\<lambda>sub. strip (content sub))) bs))))"
proof (induction bs arbitrary: st)
  case Nil
  then show ?case by simp
next
  case (Cons b bs)
  show ?case
    unfolding fold_Cons comp_apply Cons.IH [of "srt_batch tr cb tot b st"]
    by (simp add: srt_batch_log srt_batch_requests)
qed

lemma txt_fold_log:
  "log_lines (fold (txt_batch tr cb tot) bs st) =
     log_lines st @
     concat (map (\<lambda>(i, texts). snd (handle_result (tr i texts) texts))
               (enumerate (length (requests st)) (map (map snd) bs)))"
proof (induction bs arbitrary: st)
  case Nil
  then show ?case by simp
next
  case (Cons b bs)
  show ?case
    unfolding fold_Cons comp_apply Cons.IH [of "txt_batch tr cb tot b st"]
    by (simp add: txt_batch_log txt_batch_requests)
qed

lemma failed_call_logged:
  assumes "n < length reqs" and "tr n (reqs ! n) = RStr mk" and "str_in ''Error'' mk"
  shows "''Batch error: '' @ mk \<in>
     set (concat (map (\<lambda>(i, texts). snd (handle_result (tr i texts) texts)) (enumerate 0 reqs)))"
proof -
  have "(n, reqs ! n) \<in> set (enumerate 0 reqs)"
    using assms(1) by (simp add: in_set_enumerate_eq)
  moreover have "''Batch error: '' @ mk \<in> set (snd (handle_result (tr n (reqs ! n)) (reqs ! n)))"
    using assms(2,3) by (simp add: handle_result_marker)
  ultimately show ?thesis by force
qed

lemma srt_batch_prefix:
  "\<exists>o1. new_subs (srt_batch tr cb tot b st) = new_subs st @ o1"
  by (cases "py_any (map (\<lambda>sub. strip (content sub)) b)")
     (simp_all add: srt_batch_def Let_def split: prod.splits)

lemma srt_fold_prefix:
  "\<exists>out. new_subs (fold (srt_batch tr cb tot) bs st) = new_subs st @ out"
proof (induction bs arbitrary: st)
  case Nil
  then show ?case by simp
next
  case (Cons b bs)
  from Cons [of "srt_batch tr cb tot b st"] obtain out where
    "new_subs (fold (srt_batch tr cb tot) bs (srt_batch tr cb tot b st)) =
       new_subs (srt_batch tr cb tot b st) @ out" by blast
  moreover from srt_batch_prefix [of tr cb tot b st] obtain o1 where
    "new_subs (srt_batch tr cb tot b st) = new_subs st @ o1" by blast
  ultimately show ?case by simp
qed

lemma srt_fold_length:
  "length (new_subs (fold (srt_batch tr cb tot) bs st)) = length (new_subs st) + length (concat bs)"
  using srt_fold_frame [of tr cb tot bs st, THEN arg_cong, of length] by simp

lemma srt_fold_failed_slice:
  assumes "j < length bs"
    and "py_any (map (\<lambda>sub. strip (content sub)) (bs ! j))"
    and "\<forall>texts. tr (length (requests st) +
            length (filter py_any (map (map (\<lambda>sub. strip (content sub))) (take j bs)))) texts = RStr mk"
    and "str_in ''Error'' mk"
  shows "\<exists>pre post. new_subs (fold (srt_batch tr cb tot) bs st) =
           pre @ map (\<lambda>sub. sub\<lparr>content := strip (content sub)\<rparr>) (bs ! j) @ post \<and>
         length pre = length (new_subs st) + length (concat (take j bs))"
proof -
  let ?f = "srt_batch tr cb tot"
  let ?sj = "fold ?f (take j bs) st"
  have bs: "bs = take j bs @ bs ! j # drop (Suc j) bs"
    using assms(1) by (simp add: id_take_nth_drop)
  have "fold ?f bs st = fold ?f (take j bs @ bs ! j # drop (Suc j) bs) st"
    by (simp only: bs [symmetric])
  then have split: "fold ?f bs st = fold ?f (drop (Suc j) bs) (?f (bs ! j) ?sj)"
    by simp
  have rq: "length (requests ?sj) =
      length (requests st) + length (filter py_any (map (map (\<lambda>sub. strip (content sub))) (take j bs)))"
    by (simp add: srt_fold_requests)
  have call: "tr (length (requests ?sj)) (map (\<lambda>sub. strip (content sub)) (bs ! j)) = RStr mk"
    unfolding rq using assms(3) by blast
  have step: "new_subs (?f (bs ! j) ?sj) =
      new_subs ?sj @ map (\<lambda>sub. sub\<lparr>content := strip (content sub)\<rparr>) (bs ! j)"
    using srt_batch_marker [where tr = tr and st = ?sj and batch = "bs ! j" and s = mk and cb = cb
        and tot = tot, OF assms(2) call assms(4)]
    by simp
  from srt_fold_prefix [of tr cb tot "drop (Suc j) bs" "?f (bs ! j) ?sj"] obtain post where
    "new_subs (fold ?f (drop (Suc j) bs) (?f (bs ! j) ?sj)) = new_subs (?f (bs ! j) ?sj) @ post"
    by blast
  with split step have "new_subs (fold ?f bs st) =
      new_subs ?sj @ map (\<lambda>sub. sub\<lparr>content := strip (content sub)\<rparr>) (bs ! j) @ post"
    by simp
  moreover have "length (new_subs ?sj) = length (new_subs st) + length (concat (take j bs))"
    by (rule srt_fold_length)
  ultimately show ?thesis by blast
qed

lemma slice_start: "0 < k \<Longrightarrow> j < ceil_div n k \<Longrightarrow> j * k < n"
proof -
  assume k: "0 < k" and j: "j < ceil_div n k"
  then have "Suc j \<le> (n + k - 1) div k" by (simp add: ceil_div_def)
  then have "Suc j * k \<le> n + k - 1" using k by (simp add: less_eq_div_iff_mult_less_eq)
  then show ?thesis using k by simp
qed

lemma txt_fold_failed_chunk:
  assumes "n < length bs"
    and "\<forall>texts. tr (length (requests st) + n) texts = RStr mk"
    and "str_in ''Error'' mk"
    and "distinct (map fst (concat bs))"
    and "p \<in> set (bs ! n)"
  shows "translated_lines_map (fold (txt_batch tr cb tot) bs st) (fst p) = Some (snd p)"
proof -
  let ?f = "txt_batch tr cb tot"
  let ?sn = "fold ?f (take n bs) st"
  let ?b = "bs ! n"
  have bs: "bs = take n bs @ ?b # drop (Suc n) bs"
    using assms(1) by (simp add: id_take_nth_drop)
  have "fold ?f bs st = fold ?f (take n bs @ ?b # drop (Suc n) bs) st"
    by (simp only: bs [symmetric])
  then have split: "fold ?f bs st = fold ?f (drop (Suc n) bs) (?f ?b ?sn)"
    by simp
  have "distinct (map fst (concat (take n bs @ ?b # drop (Suc n) bs)))"
    using assms(4) by (simp only: bs [symmetric])
  then have "distinct (map fst (concat (take n bs)) @ map fst ?b @ map fst (concat (drop (Suc n) bs)))"
    by simp
  then have db: "distinct (map fst ?b)"
    and disj: "fst ` set ?b \<inter> fst ` set (concat (drop (Suc n) bs)) = {}"
    by (simp_all only: distinct_append set_map set_append)
  have rq: "length (requests ?sn) = length (requests st) + n"
    using assms(1) by (simp add: txt_fold_requests)
  have call: "tr (length (requests ?sn)) (map snd ?b) = RStr mk"
    unfolding rq using assms(2) by blast
  have step: "translated_lines_map (?f ?b ?sn) =
      (translated_lines_map ?sn)(map fst ?b [\<mapsto>] map snd ?b)"
    using txt_batch_marker [where tr = tr and st = ?sn and batch_tuples = ?b and s = mk and cb = cb
        and tot = tot, OF call assms(3)]
    by (simp add: map_back_upds)
  from assms(5) obtain i where i: "i < length ?b" "?b ! i = p"
    by (auto simp: in_set_conv_nth)
  have "((translated_lines_map ?sn)(map fst ?b [\<mapsto>] map snd ?b)) (map fst ?b ! i) = Some (map snd ?b ! i)"
    using db i(1) by (intro map_upds_nth) simp_all
  with i have here: "translated_lines_map (?f ?b ?sn) (fst p) = Some (snd p)"
    by (simp add: step)
  from assms(5) have "fst p \<in> fst ` set ?b" by (rule imageI)
  with disj have "fst p \<notin> fst ` set (concat (drop (Suc n) bs))" by blast
  then have "translated_lines_map (fold ?f (drop (Suc n) bs) (?f ?b ?sn)) (fst p) =
      translated_lines_map (?f ?b ?sn) (fst p)"
    by (rule txt_fold_other)
  with here split show ?thesis by simp
qed


lemma srt_doc_fail:
  assumes "0 < batch_size"
    and "\<forall>texts. tr n texts = RStr mk"
    and "str_in ''Error'' mk"
  shows "\<exists>s. translate_srt_engine tr cb batch_size subs = Inr s \<and>
     length (new_subs s) = length subs \<and>
     current_progress s = length subs \<and>
     requests s = filter py_any (map (map (\<lambda>sub. strip (content sub))) (batches (nat batch_size) subs)) \<and>
     (n < length (requests s) \<longrightarrow> ''Batch error: '' @ mk \<in> set (log_lines s)) \<and>
     (\<forall>j < length (batches (nat batch_size) subs).
        py_any (map (\<lambda>sub. strip (content sub)) (batches (nat batch_size) subs ! j)) \<and>
        length (filter py_any (map (map (\<lambda>sub. strip (content sub))) (take j (batches (nat batch_size) subs)))) = n \<longrightarrow>
        (\<exists>pre post. new_subs s =
             pre @ map (\<lambda>sub. sub\<lparr>content := strip (content sub)\<rparr>) (batches (nat batch_size) subs ! j) @ post \<and>
           length pre = j * nat batch_size))"
proof -
  let ?k = "nat batch_size"
  let ?bs = "batches ?k subs"
  let ?f = "srt_batch tr cb (length subs)"
  let ?s = "fold ?f ?bs srt_init"
  let ?texts = "map (\<lambda>sub. strip (content sub))"
  from assms(1) have k: "0 < ?k" by simp
  have cb: "chunks ?k subs = ?bs" using k by (rule chunks_batches)
  have e: "translate_srt_engine tr cb batch_size subs = Inr ?s"
    using assms(1) by (simp add: translate_srt_engine_def srt_loop_fold cb)
  have cc: "concat ?bs = subs" using concat_chunks [OF k, of subs] by (simp add: cb)
  have len: "length (new_subs ?s) = length subs"
    by (simp add: srt_fold_length cc srt_init_def)
  have prog: "current_progress ?s = length subs"
    using fold_progress [of ?f cb "length subs" ?bs srt_init]
    by (simp add: srt_batch_progress cc srt_init_def)
  have rq: "requests ?s = filter py_any (map ?texts ?bs)"
    by (simp add: srt_fold_requests srt_init_def)
  have lg: "log_lines ?s =
      concat (map (\<lambda>(i, texts). snd (handle_result (tr i texts) texts)) (enumerate 0 (requests ?s)))"
    unfolding rq by (simp add: srt_fold_log srt_init_def)
  have logged: "n < length (requests ?s) \<longrightarrow> ''Batch error: '' @ mk \<in> set (log_lines ?s)"
  proof
    assume "n < length (requests ?s)"
    from failed_call_logged [OF this _ assms(3), of tr] assms(2)
    show "''Batch error: '' @ mk \<in> set (log_lines ?s)" unfolding lg by simp
  qed
  have slice: "\<forall>j < length ?bs.
        py_any (?texts (?bs ! j)) \<and> length (filter py_any (map ?texts (take j ?bs))) = n \<longrightarrow>
        (\<exists>pre post. new_subs ?s =
             pre @ map (\<lambda>sub. sub\<lparr>content := strip (content sub)\<rparr>) (?bs ! j) @ post \<and>
           length pre = j * ?k)"
  proof (intro allI impI)
    fix j assume j: "j < length ?bs"
      and h: "py_any (?texts (?bs ! j)) \<and> length (filter py_any (map ?texts (take j ?bs))) = n"
    then have call: "\<forall>texts. tr (length (requests srt_init) +
            length (filter py_any (map ?texts (take j ?bs)))) texts = RStr mk"
      using assms(2) by (simp add: srt_init_def)
    from srt_fold_failed_slice [where tr = tr and st = srt_init and bs = ?bs and j = j and mk = mk
        and cb = cb and tot = "length subs", OF j _ call assms(3)] h
    obtain pre post where
      p: "new_subs ?s = pre @ map (\<lambda>sub. sub\<lparr>content := strip (content sub)\<rparr>) (?bs ! j) @ post"
      and l: "length pre = length (new_subs srt_init) + length (concat (take j ?bs))"
      by blast
    have "concat (take j ?bs) = take (j * ?k) subs"
      using concat_take_chunks [OF k, of j subs] by (simp add: cb)
    moreover have "j * ?k < length subs"
      using j k by (intro slice_start) simp_all
    ultimately have "length pre = j * ?k" using l by (simp add: srt_init_def)
    with p show "\<exists>pre post. new_subs ?s =
             pre @ map (\<lambda>sub. sub\<lparr>content := strip (content sub)\<rparr>) (?bs ! j) @ post \<and>
           length pre = j * ?k" by blast
  qed
  from e len prog rq logged slice show ?thesis by blast
qed

lemma txt_doc_fail:
  assumes "0 < batch_size"
    and "\<forall>texts. tr n texts = RStr mk"
    and "str_in ''Error'' mk"
  shows "\<exists>s out. translate_plain_text_engine tr cb batch_size lines = Inr (s, out) \<and>
     length out = length lines \<and>
     current_progress s = length (non_empty_lines lines) \<and>
     requests s = batches (nat batch_size) (map strip (non_empty_lines lines)) \<and>
     (n < length (requests s) \<longrightarrow>
        ''Batch error: '' @ mk \<in> set (log_lines s) \<and>
        (\<forall>p \<in> set (batches (nat batch_size) (lines_to_process 0 lines) ! n).
           translated_lines_map s (fst p) = Some (snd p) \<and>
           out ! fst p = snd p @ [CHR 0x0A]))"
proof -
  let ?k = "nat batch_size"
  let ?ltp = "lines_to_process 0 lines"
  let ?bs = "batches ?k ?ltp"
  let ?f = "txt_batch tr cb (length ?ltp)"
  let ?s = "fold ?f ?bs txt_init"
  let ?out = "reconstruct (translated_lines_map ?s) 0 lines"
  from assms(1) have k: "0 < ?k" by simp
  have cb: "chunks ?k ?ltp = ?bs" using k by (rule chunks_batches)
  have e: "translate_plain_text_engine tr cb batch_size lines = Inr (?s, ?out)"
    using assms(1) by (simp add: translate_plain_text_engine_def Let_def txt_loop_fold cb)
  have cc: "concat ?bs = ?ltp" using concat_chunks [OF k, of ?ltp] by (simp add: cb)
  have prog: "current_progress ?s = length (non_empty_lines lines)"
    using fold_progress [of ?f cb "length ?ltp" ?bs txt_init]
    by (simp add: txt_batch_progress cc txt_init_def length_lines_to_process)
  have "map (map snd) ?bs = batches ?k (map strip (non_empty_lines lines))"
    unfolding cb [symmetric] map_chunks snd_lines_to_process using k by (simp add: chunks_batches)
  then have rq: "requests ?s = batches ?k (map strip (non_empty_lines lines))"
    by (simp add: txt_fold_requests txt_init_def)
  have rq': "requests ?s = map (map snd) ?bs"
    by (simp add: txt_fold_requests txt_init_def)
  have lg: "log_lines ?s =
      concat (map (\<lambda>(i, texts). snd (handle_result (tr i texts) texts)) (enumerate 0 (requests ?s)))"
    unfolding rq' by (simp add: txt_fold_log txt_init_def)
  have fail: "n < length (requests ?s) \<longrightarrow>
        ''Batch error: '' @ mk \<in> set (log_lines ?s) \<and>
        (\<forall>p \<in> set (?bs ! n).
           translated_lines_map ?s (fst p) = Some (snd p) \<and>
           ?out ! fst p = snd p @ [CHR 0x0A])"
  proof
    assume n: "n < length (requests ?s)"
    from failed_call_logged [OF this _ assms(3), of tr] assms(2)
    have a: "''Batch error: '' @ mk \<in> set (log_lines ?s)" unfolding lg by simp
    from n have nb: "n < length ?bs" by (simp add: rq')
    have b: "\<forall>p \<in> set (?bs ! n).
           translated_lines_map ?s (fst p) = Some (snd p) \<and>
           ?out ! fst p = snd p @ [CHR 0x0A]"
    proof
      fix p assume p: "p \<in> set (?bs ! n)"
      have call: "\<forall>texts. tr (length (requests txt_init) + n) texts = RStr mk"
        using assms(2) by (simp add: txt_init_def)
      have d: "distinct (map fst (concat ?bs))"
        unfolding cc by (rule distinct_lines_to_process)
      from txt_fold_failed_chunk [where tr = tr and st = txt_init and bs = ?bs and n = n and mk = mk
          and cb = cb and tot = "length ?ltp" and p = p, OF nb call assms(3) d p]
      have m: "translated_lines_map ?s (fst p) = Some (snd p)" .
      from nb have "?bs ! n \<in> set ?bs" by (rule nth_mem)
      with p have "p \<in> set (concat ?bs)" unfolding set_concat by blast
      then have "(fst p, snd p) \<in> set ?ltp" unfolding cc by simp
      then have "fst p < length lines" by (simp only: in_lines_to_process)
      with m have "?out ! fst p = snd p @ [CHR 0x0A]" by (simp add: nth_reconstruct)
      with m show "translated_lines_map ?s (fst p) = Some (snd p) \<and>
           ?out ! fst p = snd p @ [CHR 0x0A]" by blast
    qed
    from a b show "''Batch error: '' @ mk \<in> set (log_lines ?s) \<and>
        (\<forall>p \<in> set (?bs ! n).
           translated_lines_map ?s (fst p) = Some (snd p) \<and>
           ?out ! fst p = snd p @ [CHR 0x0A])" by blast
  qed
  have len: "length ?out = length lines" by simp
  from e len prog rq fail show ?thesis by blast
qed

text \<open>
  C4 as stated fails in one point: the results used for a failed batch are the texts that
  were sent, which are trimmed, not the original texts. With a first call that raises, a
  subtitle whose content is \<^verbatim>\<open>" One"\<close> is written back as \<^verbatim>\<open>"One"\<close> (and the second batch
  is translated as usual).
\<close>

theorem fallback_not_original_counterexample:
  "translate_srt backend_fails_first id ''English'' ''French'' ''translategemma'' False 1 None
     [mk_sub 1 0 '' One'', mk_sub 2 2000000 ''Two'']
   = Inr \<lparr>current_progress = 2, progress_calls = [],
          log_lines = [''Batch error: Error during translation: timeout''],
          requests = [[''One''], [''Two'']],
          new_subs = [mk_sub 1 0 ''One'', mk_sub 2 2000000 ''Deux'']\<rparr> \<and>
   content (mk_sub 1 0 ''One'') \<noteq> content (mk_sub 1 0 '' One'')"
  by code_simp

text \<open>
  C4, amended. If the call number \<open>n\<close> of the backend raises an exception \<open>e\<close>,
  \<^verbatim>\<open>translate\<close> returns the string \<^verbatim>\<open>"Error during translation: " + str(e)\<close> instead of
  raising, and that string contains \<^verbatim>\<open>"Error"\<close>. A batch of \<^verbatim>\<open>translate_srt\<close> or of
  \<^verbatim>\<open>translate_plain_text\<close> whose call fails in this way logs \<^verbatim>\<open>"Batch error: ..."\<close> and
  uses the texts it had sent, the trimmed untranslated texts of the batch, as the results
  of the batch. The failure does not stop the document: with a positive batch size every
  batch is still requested, every unit is emitted and the progress reaches the total; the
  log holds the message of the failed call; in \<^verbatim>\<open>translate_srt\<close> the subtitles of the
  slice whose call failed stand at their positions with their content trimmed, and in
  \<^verbatim>\<open>translate_plain_text\<close> the lines of the failed batch are written as their trimmed
  text followed by a newline.
\<close>

theorem backend_exception_falls_back:
  assumes "\<forall>m p. chat n m p = Inl e"
    and "tr = client chat convert source_lang target_lang model ins"
    and "0 < batch_size"
  shows "translate (chat n) convert t source_lang target_lang source_code target_code model instruction
           = RStr (''Error during translation: '' @ e) \<and>
         str_in ''Error'' (''Error during translation: '' @ e) \<and>
         (length (requests st) = n \<and> py_any (map (\<lambda>sub. strip (content sub)) batch) \<longrightarrow>
            srt_batch tr cb tot batch st =
              st\<lparr>requests := requests st @ [map (\<lambda>sub. strip (content sub)) batch],
                 log_lines := log_lines st @ [''Batch error: '' @ ''Error during translation: '' @ e],
                 new_subs := new_subs st @ map (\<lambda>sub. sub\<lparr>content := strip (content sub)\<rparr>) batch,
                 current_progress := current_progress st + length batch,
                 progress_calls := report cb (current_progress st + length batch) tot (progress_calls st)\<rparr>) \<and>
         (length (requests st') = n \<longrightarrow>
            txt_batch tr cb tot batch_tuples st' =
              st'\<lparr>requests := requests st' @ [map snd batch_tuples],
                  log_lines := log_lines st' @ [''Batch error: '' @ ''Error during translation: '' @ e],
                  translated_lines_map :=
                    map_back (map fst batch_tuples) 0 (map snd batch_tuples) (translated_lines_map st'),
                  current_progress := current_progress st' + length batch_tuples,
                  progress_calls :=
                    report cb (current_progress st' + length batch_tuples) tot (progress_calls st')\<rparr>) \<and>
         (\<exists>s. translate_srt chat convert source_lang target_lang model cb batch_size instruction subs = Inr s \<and>
            length (new_subs s) = length subs \<and>
            current_progress s = length subs \<and>
            requests s =
              filter py_any (map (map (\<lambda>sub. strip (content sub))) (batches (nat batch_size) subs)) \<and>
            (n < length (requests s) \<longrightarrow>
               ''Batch error: '' @ ''Error during translation: '' @ e \<in> set (log_lines s)) \<and>
            (\<forall>j < length (batches (nat batch_size) subs).
               py_any (map (\<lambda>sub. strip (content sub)) (batches (nat batch_size) subs ! j)) \<and>
               length (filter py_any (map (map (\<lambda>sub. strip (content sub)))
                         (take j (batches (nat batch_size) subs)))) = n \<longrightarrow>
               (\<exists>pre post. new_subs s =
                    pre @ map (\<lambda>sub. sub\<lparr>content := strip (content sub)\<rparr>)
                            (batches (nat batch_size) subs ! j) @ post \<and>
                  length pre = j * nat batch_size))) \<and>
         (\<exists>s out. translate_plain_text chat convert source_lang target_lang model cb batch_size instruction lines
                    = Inr (s, out) \<and>
            length out = length lines \<and>
            current_progress s = length (non_empty_lines lines) \<and>
            requests s = batches (nat batch_size) (map strip (non_empty_lines lines)) \<and>
            (n < length (requests s) \<longrightarrow>
               ''Batch error: '' @ ''Error during translation: '' @ e \<in> set (log_lines s) \<and>
               (\<forall>p \<in> set (batches (nat batch_size) (lines_to_process 0 lines) ! n).
                  translated_lines_map s (fst p) = Some (snd p) \<and>
                  out ! fst p = snd p @ [CHR 0x0A])))"
proof -
  let ?mk = "''Error during translation: '' @ e"
  have rs: "translate (chat n) convert t source_lang target_lang sc tc model i = RStr ?mk" for t sc tc i
    using assms(1) by (simp add: translate_raise)
  have mark: "str_in ''Error'' ?mk"
    by (rule error_marker_has_Error)
  have cl: "\<forall>texts. client chat convert source_lang target_lang model i n texts = RStr ?mk" for i
    using rs by (simp add: client_def)
  have tr: "tr n texts = RStr ?mk" for texts
    using cl by (simp add: assms(2))
  have srt: "length (requests st) = n \<and> py_any (map (\<lambda>sub. strip (content sub)) batch) \<longrightarrow>
            srt_batch tr cb tot batch st =
              st\<lparr>requests := requests st @ [map (\<lambda>sub. strip (content sub)) batch],
                 log_lines := log_lines st @ [''Batch error: '' @ ?mk],
                 new_subs := new_subs st @ map (\<lambda>sub. sub\<lparr>content := strip (content sub)\<rparr>) batch,
                 current_progress := current_progress st + length batch,
                 progress_calls := report cb (current_progress st + length batch) tot (progress_calls st)\<rparr>"
  proof
    assume h: "length (requests st) = n \<and> py_any (map (\<lambda>sub. strip (content sub)) batch)"
    then have c: "tr (length (requests st)) (map (\<lambda>sub. strip (content sub)) batch) = RStr ?mk"
      using tr by simp
    from h srt_batch_marker [where tr = tr and st = st and batch = batch and s = ?mk and cb = cb
        and tot = tot, OF _ c mark]
    show "srt_batch tr cb tot batch st =
              st\<lparr>requests := requests st @ [map (\<lambda>sub. strip (content sub)) batch],
                 log_lines := log_lines st @ [''Batch error: '' @ ?mk],
                 new_subs := new_subs st @ map (\<lambda>sub. sub\<lparr>content := strip (content sub)\<rparr>) batch,
                 current_progress := current_progress st + length batch,
                 progress_calls := report cb (current_progress st + length batch) tot (progress_calls st)\<rparr>"
      by blast
  qed
  have tx: "length (requests st') = n \<longrightarrow>
            txt_batch tr cb tot batch_tuples st' =
              st'\<lparr>requests := requests st' @ [map snd batch_tuples],
                  log_lines := log_lines st' @ [''Batch error: '' @ ?mk],
                  translated_lines_map :=
                    map_back (map fst batch_tuples) 0 (map snd batch_tuples) (translated_lines_map st'),
                  current_progress := current_progress st' + length batch_tuples,
                  progress_calls :=
                    report cb (current_progress st' + length batch_tuples) tot (progress_calls st')\<rparr>"
  proof
    assume h: "length (requests st') = n"
    then have c: "tr (length (requests st')) (map snd batch_tuples) = RStr ?mk"
      using tr by simp
    from txt_batch_marker [where tr = tr and st = st' and batch_tuples = batch_tuples and s = ?mk
        and cb = cb and tot = tot, OF c mark]
    show "txt_batch tr cb tot batch_tuples st' =
              st'\<lparr>requests := requests st' @ [map snd batch_tuples],
                  log_lines := log_lines st' @ [''Batch error: '' @ ?mk],
                  translated_lines_map :=
                    map_back (map fst batch_tuples) 0 (map snd batch_tuples) (translated_lines_map st'),
                  current_progress := current_progress st' + length batch_tuples,
                  progress_calls :=
                    report cb (current_progress st' + length batch_tuples) tot (progress_calls st')\<rparr>"
      by simp
  qed
  note d1 = srt_doc_fail [where tr = "client chat convert source_lang target_lang model
        (instruction_or srt_default_instruction instruction)" and n = n and mk = ?mk and cb = cb
      and subs = subs, OF assms(3) cl mark, folded translate_srt_def]
  note d2 = txt_doc_fail [where tr = "client chat convert source_lang target_lang model
        (instruction_or txt_default_instruction instruction)" and n = n and mk = ?mk and cb = cb
      and lines = lines, OF assms(3) cl mark, folded translate_plain_text_def]
  from rs mark srt tx d1 d2 show ?thesis by (intro conjI) 
qed

theorem backend_exception_falls_back_witness:
  "(0::int) < 1 \<and>
   translate (backend_fails_first 0) id (TList [''One'']) ''English'' ''French'' None None
     ''translategemma'' None = RStr ''Error during translation: timeout'' \<and>
   new_subs (srt_batch (client backend_fails_first id ''English'' ''French'' ''translategemma''
                 srt_default_instruction) False 2 [mk_sub 1 0 '' One''] srt_init)
     = [mk_sub 1 0 ''One''] \<and>
   (\<exists>s. translate_srt backend_fails_first id ''English'' ''French'' ''translategemma'' False 1 None
           [mk_sub 1 0 '' One'', mk_sub 2 2000000 ''Two''] = Inr s \<and>
      length (new_subs s) = 2 \<and> current_progress s = 2 \<and>
      requests s = [[''One''], [''Two'']] \<and>
      ''Batch error: Error during translation: timeout'' \<in> set (log_lines s) \<and>
      (\<exists>pre post. new_subs s = pre @ [mk_sub 1 0 ''One''] @ post \<and> length pre = 0)) \<and>
   (\<exists>s out. translate_plain_text backend_fails_first id ''English'' ''French'' ''translategemma'' False 1
           None ['' One \<newline>'', ''Two''] = Inr (s, out) \<and>
      length out = 2 \<and> current_progress s = 2 \<and>
      requests s = [[''One''], [''Two'']] \<and>
      ''Batch error: Error during translation: timeout'' \<in> set (log_lines s) \<and>
      translated_lines_map s 0 = Some ''One'' \<and> out ! 0 = ''One\<newline>'')"
proof -
  let ?subs = "[mk_sub 1 0 '' One'', mk_sub 2 2000000 ''Two'']"
  let ?lines = "['' One \<newline>'', ''Two'']"
  have k: "(0::int) < 1" by simp
  have h: "\<forall>m p. backend_fails_first 0 m p = Inl ''timeout''"
    by (simp add: backend_fails_first_def)
  have e1: "filter py_any (map (map (\<lambda>sub. strip (content sub)))
        [[mk_sub 1 0 '' One''], [mk_sub 2 2000000 ''Two'']])
      = [[''One''], [''Two'']]" by code_simp
  have e2: "batches (nat 1) ?subs = [[mk_sub 1 0 '' One''], [mk_sub 2 2000000 ''Two'']]"
    by code_simp
  have e3: "batches (nat 1) (map strip (non_empty_lines ?lines)) = [[''One''], [''Two'']]"
    by code_simp
  have e4: "batches (nat 1) (lines_to_process 0 ?lines) = [[(0, ''One'')], [(1, ''Two'')]]"
    by code_simp
  have e5: "py_any (map (\<lambda>sub. strip (content sub)) [mk_sub 1 0 '' One''])" by code_simp
  have e6: "length (non_empty_lines ?lines) = 2" by code_simp
  have e7: "map (\<lambda>sub. sub\<lparr>content := strip (content sub)\<rparr>) [mk_sub 1 0 '' One''] = [mk_sub 1 0 ''One'']"
    by code_simp
  have e8: "mk_sub 1 0 '' One''\<lparr>content := strip (content (mk_sub 1 0 '' One''))\<rparr> = mk_sub 1 0 ''One''"
    by code_simp
  note w = backend_exception_falls_back [where chat = backend_fails_first and n = 0
      and e = "''timeout''"
      and tr = "client backend_fails_first id ''English'' ''French'' ''translategemma''
                 srt_default_instruction"
      and convert = id and source_lang = "''English''" and target_lang = "''French''"
      and model = "''translategemma''" and ins = srt_default_instruction and batch_size = 1
      and t = "TList [''One'']" and source_code = None and target_code = None
      and instruction = None and st = srt_init and batch = "[mk_sub 1 0 '' One'']"
      and st' = txt_init and batch_tuples = "[(0, ''One'')]" and cb = False and tot = 2
      and subs = ?subs and lines = ?lines, OF h refl k, unfolded e2 e1 e3 e4 e6]
  note w1 = w [THEN conjunct1]
  note w3 = w [THEN conjunct2, THEN conjunct2, THEN conjunct1]
  note w5 = w [THEN conjunct2, THEN conjunct2, THEN conjunct2, THEN conjunct2, THEN conjunct1]
  note w6 = w [THEN conjunct2, THEN conjunct2, THEN conjunct2, THEN conjunct2, THEN conjunct2]
  from w1 have c1: "translate (backend_fails_first 0) id (TList [''One'']) ''English'' ''French'' None None
     ''translategemma'' None = RStr ''Error during translation: timeout''" by simp
  have "length (requests srt_init) = 0" by (simp add: srt_init_def)
  with e5 have "length (requests srt_init) = 0 \<and>
      py_any (map (\<lambda>sub. strip (content sub)) [mk_sub 1 0 '' One''])" by simp
  from w3 [THEN mp, OF this, THEN arg_cong, of new_subs]
  have c2: "new_subs (srt_batch (client backend_fails_first id ''English'' ''French'' ''translategemma''
                 srt_default_instruction) False 2 [mk_sub 1 0 '' One''] srt_init)
     = [mk_sub 1 0 ''One'']"
    unfolding e7 by (simp add: srt_init_def)
  from w5 obtain s where s: "translate_srt backend_fails_first id ''English'' ''French'' ''translategemma'' False 1 None ?subs = Inr s \<and>
      length (new_subs s) = length ?subs \<and> current_progress s = length ?subs \<and>
      requests s = [[''One''], [''Two'']] \<and>
      (0 < length (requests s) \<longrightarrow>
         ''Batch error: '' @ ''Error during translation: '' @ ''timeout'' \<in> set (log_lines s)) \<and>
      (\<forall>j < length [[mk_sub 1 0 '' One''], [mk_sub 2 2000000 ''Two'']].
         py_any (map (\<lambda>sub. strip (content sub)) ([[mk_sub 1 0 '' One''], [mk_sub 2 2000000 ''Two'']] ! j)) \<and>
         length (filter py_any (map (map (\<lambda>sub. strip (content sub)))
                   (take j [[mk_sub 1 0 '' One''], [mk_sub 2 2000000 ''Two'']]))) = 0 \<longrightarrow>
         (\<exists>pre post. new_subs s =
              pre @ map (\<lambda>sub. sub\<lparr>content := strip (content sub)\<rparr>)
                      ([[mk_sub 1 0 '' One''], [mk_sub 2 2000000 ''Two'']] ! j) @ post \<and>
            length pre = j * nat 1))" ..
  note s1 = s [THEN conjunct1]
  note s2 = s [THEN conjunct2, THEN conjunct1]
  note s3 = s [THEN conjunct2, THEN conjunct2, THEN conjunct1]
  note s4 = s [THEN conjunct2, THEN conjunct2, THEN conjunct2, THEN conjunct1]
  note s5 = s [THEN conjunct2, THEN conjunct2, THEN conjunct2, THEN conjunct2, THEN conjunct1]
  note s6 = s [THEN conjunct2, THEN conjunct2, THEN conjunct2, THEN conjunct2, THEN conjunct2]
  from s4 s5 have s5': "''Batch error: Error during translation: timeout'' \<in> set (log_lines s)"
    by simp
  have j0: "(0::nat) < length [[mk_sub 1 0 '' One''], [mk_sub 2 2000000 ''Two'']]" by simp
  have "py_any (map (\<lambda>sub. strip (content sub)) ([[mk_sub 1 0 '' One''], [mk_sub 2 2000000 ''Two'']] ! 0)) \<and>
         length (filter py_any (map (map (\<lambda>sub. strip (content sub)))
                   (take 0 [[mk_sub 1 0 '' One''], [mk_sub 2 2000000 ''Two'']]))) = 0"
    using e5 by simp
  from s6 [rule_format, OF j0 this] have
    s6': "\<exists>pre post. new_subs s = pre @ [mk_sub 1 0 ''One''] @ post \<and> length pre = 0"
    by (simp add: e8)
  from w6 obtain s' where "\<exists>out. translate_plain_text backend_fails_first id ''English'' ''French'' ''translategemma'' False 1
           None ?lines = Inr (s', out) \<and>
      length out = length ?lines \<and> current_progress s' = 2 \<and>
      requests s' = [[''One''], [''Two'']] \<and>
      (0 < length (requests s') \<longrightarrow>
         ''Batch error: '' @ ''Error during translation: '' @ ''timeout'' \<in> set (log_lines s') \<and>
         (\<forall>p \<in> set ([[(0, ''One'')], [(1, ''Two'')]] ! 0).
            translated_lines_map s' (fst p) = Some (snd p) \<and> out ! fst p = snd p @ [CHR 0x0A]))" ..
  then obtain out where t: "translate_plain_text backend_fails_first id ''English'' ''French'' ''translategemma'' False 1
           None ?lines = Inr (s', out) \<and>
      length out = length ?lines \<and> current_progress s' = 2 \<and>
      requests s' = [[''One''], [''Two'']] \<and>
      (0 < length (requests s') \<longrightarrow>
         ''Batch error: '' @ ''Error during translation: '' @ ''timeout'' \<in> set (log_lines s') \<and>
         (\<forall>p \<in> set ([[(0, ''One'')], [(1, ''Two'')]] ! 0).
            translated_lines_map s' (fst p) = Some (snd p) \<and> out ! fst p = snd p @ [CHR 0x0A]))" ..
  note t1 = t [THEN conjunct1]
  note t2 = t [THEN conjunct2, THEN conjunct1]
  note t3 = t [THEN conjunct2, THEN conjunct2, THEN conjunct1]
  note t4 = t [THEN conjunct2, THEN conjunct2, THEN conjunct2, THEN conjunct1]
  note t5 = t [THEN conjunct2, THEN conjunct2, THEN conjunct2, THEN conjunct2]
  from t4 t5 have t5': "''Batch error: Error during translation: timeout'' \<in> set (log_lines s')"
    and t6: "translated_lines_map s' 0 = Some ''One''" and t7: "out ! 0 = ''One\<newline>''"
    by simp_all
  from s2 s3 have s23: "length (new_subs s) = 2" "current_progress s = 2" by simp_all
  from t2 have t2': "length out = 2" by simp
  have srt: "\<exists>s. translate_srt backend_fails_first id ''English'' ''French'' ''translategemma'' False 1 None
           [mk_sub 1 0 '' One'', mk_sub 2 2000000 ''Two''] = Inr s \<and>
      length (new_subs s) = 2 \<and> current_progress s = 2 \<and>
      requests s = [[''One''], [''Two'']] \<and>
      ''Batch error: Error during translation: timeout'' \<in> set (log_lines s) \<and>
      (\<exists>pre post. new_subs s = pre @ [mk_sub 1 0 ''One''] @ post \<and> length pre = 0)"
    using s1 s23 s4 s5' s6' by (intro exI [of _ s] conjI)
  have ptx: "\<exists>s out. translate_plain_text backend_fails_first id ''English'' ''French'' ''translategemma'' False 1
           None ['' One \<newline>'', ''Two''] = Inr (s, out) \<and>
      length out = 2 \<and> current_progress s = 2 \<and>
      requests s = [[''One''], [''Two'']] \<and>
      ''Batch error: Error during translation: timeout'' \<in> set (log_lines s) \<and>
      translated_lines_map s 0 = Some ''One'' \<and> out ! 0 = ''One\<newline>''"
    using t1 t2' t3 t4 t5' t6 t7 by (intro exI [of _ s'] exI [of _ out] conjI)
  from k c1 c2 srt ptx show ?thesis by (intro conjI)
qed

end
